theory Spec2Isabelle
  imports Main
begin

section \<open>JavaScript strings\<close>

text \<open>
  The plugin works on JavaScript strings. A text is modelled as a HOL \<open>string\<close>, one
  \<open>char\<close> per UTF-16 code unit, which covers the code units below 256. In that range the
  white space of \<open>\s\<close> and of \<open>trim()\<close> is TAB, LF, VT, FF, CR, SPACE and NBSP, and the
  word characters of \<open>\w\<close> are the ASCII letters, the digits and the underscore.
\<close>

definition is_space :: "char \<Rightarrow> bool" where
  "is_space c = (c \<in> set [CHR 0x09, CHR 0x0A, CHR 0x0B, CHR 0x0C, CHR 0x0D, CHR 0x20, CHR 0xA0])"

definition is_word :: "char \<Rightarrow> bool" where
  "is_word c = (c \<in> set ''abcdefghijklmnopqrstuvwxyzABCDEFGHIJKLMNOPQRSTUVWXYZ0123456789_'')"

definition upper_table :: "(char \<times> char) list" where
  "upper_table = zip
     (''abcdefghijklmnopqrstuvwxyz'' @
      [CHR 0xE0, CHR 0xE1, CHR 0xE2, CHR 0xE3, CHR 0xE4, CHR 0xE5, CHR 0xE6, CHR 0xE7,
       CHR 0xE8, CHR 0xE9, CHR 0xEA, CHR 0xEB, CHR 0xEC, CHR 0xED, CHR 0xEE, CHR 0xEF,
       CHR 0xF0, CHR 0xF1, CHR 0xF2, CHR 0xF3, CHR 0xF4, CHR 0xF5, CHR 0xF6,
       CHR 0xF8, CHR 0xF9, CHR 0xFA, CHR 0xFB, CHR 0xFC, CHR 0xFD, CHR 0xFE])
     (''ABCDEFGHIJKLMNOPQRSTUVWXYZ'' @
      [CHR 0xC0, CHR 0xC1, CHR 0xC2, CHR 0xC3, CHR 0xC4, CHR 0xC5, CHR 0xC6, CHR 0xC7,
       CHR 0xC8, CHR 0xC9, CHR 0xCA, CHR 0xCB, CHR 0xCC, CHR 0xCD, CHR 0xCE, CHR 0xCF,
       CHR 0xD0, CHR 0xD1, CHR 0xD2, CHR 0xD3, CHR 0xD4, CHR 0xD5, CHR 0xD6,
       CHR 0xD8, CHR 0xD9, CHR 0xDA, CHR 0xDB, CHR 0xDC, CHR 0xDD, CHR 0xDE])"

definition canon_table :: "char \<Rightarrow> char" where
  \<comment> \<open>Canonicalize of a regular expression with the flag \<open>i\<close>: the upper-case code unit.\<close>
  "canon_table c = (case map_of upper_table c of Some u \<Rightarrow> u | None \<Rightarrow> c)"

fun canon :: "char \<Rightarrow> char" where
  \<comment> \<open>The same by the bits of the code unit: a lower-case letter has bits 5 and 6 set, and
      its upper case is the letter with bit 5 cleared.\<close>
  "canon (Char b0 b1 b2 b3 b4 b5 b6 b7) =
     (if b5 \<and> b6 \<and>
         (if b7 then \<not> (b0 \<and> b1 \<and> b2 \<and> b4)
          else (b0 \<or> b1 \<or> b2 \<or> b3 \<or> b4) \<and> \<not> (b4 \<and> b3 \<and> (b2 \<or> b1 \<and> b0)))
      then Char b0 b1 b2 b3 b4 False b6 b7
      else Char b0 b1 b2 b3 b4 b5 b6 b7)"

lemma canon_bits:
  "canon (Char b0 b1 b2 b3 b4 b5 b6 b7) = canon_table (Char b0 b1 b2 b3 b4 b5 b6 b7)"
  by (cases b0 rule: bool.exhaust; cases b1 rule: bool.exhaust; cases b2 rule: bool.exhaust;
      cases b3 rule: bool.exhaust; cases b4 rule: bool.exhaust; cases b5 rule: bool.exhaust;
      cases b6 rule: bool.exhaust; cases b7 rule: bool.exhaust; hypsubst_thin; code_simp)

lemma canon_is_table: "canon c = canon_table c"
  by (cases c) (simp only: canon_bits)

definition eq_ic :: "bool \<Rightarrow> char \<Rightarrow> char \<Rightarrow> bool" where
  "eq_ic ic p x = (p = x \<or> (ic \<and> canon p = canon x))"

definition trim :: "string \<Rightarrow> string" where
  "trim s = rev (dropWhile is_space (rev (dropWhile is_space s)))"

definition startsWith :: "string \<Rightarrow> string \<Rightarrow> bool" where
  "startsWith s p = (take (length p) s = p)"

definition endsWith :: "string \<Rightarrow> string \<Rightarrow> bool" where
  "endsWith s p = (length p \<le> length s \<and> drop (length s - length p) s = p)"


fun split_acc :: "char \<Rightarrow> string \<Rightarrow> string \<Rightarrow> string list" where
  "split_acc d acc [] = [rev acc]"
| "split_acc d acc (x # s) = (if x = d then rev acc # split_acc d [] s else split_acc d (x # acc) s)"

definition split :: "string \<Rightarrow> char \<Rightarrow> string list" where
  \<comment> \<open>\<open>s.split(d)\<close> for a separator of one character: never the empty array.\<close>
  "split s d = split_acc d [] s"

fun join :: "string list \<Rightarrow> string \<Rightarrow> string" where
  "join [] d = []"
| "join [x] d = x"
| "join (x # y # xs) d = x @ d @ join (y # xs) d"

definition digit_char :: "nat \<Rightarrow> char" where
  "digit_char d = ''0123456789'' ! (d mod 10)"

fun show_nat :: "nat \<Rightarrow> string" where
  "show_nat n = (if n < 10 then [digit_char n] else show_nat (n div 10) @ [digit_char (n mod 10)])"

definition show_int :: "int \<Rightarrow> string" where
  "show_int i = (if i < 0 then CHR ''-'' # show_nat (nat (- i)) else show_nat (nat i))"

section \<open>Regular expressions\<close>

text \<open>
  The regular expressions of the plugin, as a datatype, with the backtracking semantics of
  ECMAScript: \<open>ms\<close> lists the states a pattern can end in, in the order in which the
  backtracking matcher tries them, so the head of the list is the match JavaScript
  reports. A state is the number of characters matched so far, the text before the
  position (reversed), the text after it and the captures made so far. Every quantifier
  \<open>*\<close>, \<open>+\<close>, \<open>*?\<close>, \<open>+?\<close> of the plugin's patterns stands on a single character or a
  character class, so the datatype has these only; \<open>?\<close> stands on any pattern, and an
  iteration of it that consumes nothing is rejected, as in RepeatMatcher. No pattern of
  the plugin has the flag \<open>m\<close>, so \<open>^\<close> and \<open>$\<close> are the ends of the input.
\<close>

datatype citem = ISpace | INotSpace | IWord | IChar char

datatype cset = Only "citem list" | Except "citem list"

datatype rx =
    Lit string
  | Cls cset
  | Seq rx rx
  | Alt rx rx
  | Star cset
  | StarLazy cset
  | Opt rx
  | Grp nat rx
  | Bol
  | Eol
  | WordB

type_synonym caps = "(nat \<times> string) list"

type_synonym mstate = "nat \<times> string \<times> string \<times> caps"

fun in_item :: "bool \<Rightarrow> char \<Rightarrow> citem \<Rightarrow> bool" where
  "in_item ic x ISpace = is_space x"
| "in_item ic x INotSpace = (\<not> is_space x)"
| "in_item ic x IWord = is_word x"
| "in_item ic x (IChar p) = eq_ic ic p x"

fun cs_ok :: "bool \<Rightarrow> cset \<Rightarrow> char \<Rightarrow> bool" where
  "cs_ok ic (Only items) x = list_ex (in_item ic x) items"
| "cs_ok ic (Except items) x = (\<not> list_ex (in_item ic x) items)"

fun lit_rest :: "bool \<Rightarrow> string \<Rightarrow> mstate \<Rightarrow> mstate list" where
  "lit_rest ic [] st = [st]"
| "lit_rest ic (p # ps) (k, b, [], c) = []"
| "lit_rest ic (p # ps) (k, b, x # s, c) =
     (if eq_ic ic p x then lit_rest ic ps (k + 1, x # b, s, c) else [])"

fun star_greedy :: "bool \<Rightarrow> cset \<Rightarrow> mstate \<Rightarrow> mstate list" where
  "star_greedy ic cs (k, b, [], c) = [(k, b, [], c)]"
| "star_greedy ic cs (k, b, x # s, c) =
     (if cs_ok ic cs x then star_greedy ic cs (k + 1, x # b, s, c) else []) @ [(k, b, x # s, c)]"

fun star_lazy :: "bool \<Rightarrow> cset \<Rightarrow> mstate \<Rightarrow> mstate list" where
  "star_lazy ic cs (k, b, [], c) = [(k, b, [], c)]"
| "star_lazy ic cs (k, b, x # s, c) =
     (k, b, x # s, c) # (if cs_ok ic cs x then star_lazy ic cs (k + 1, x # b, s, c) else [])"

definition word_before :: "string \<Rightarrow> bool" where
  "word_before b = (case b of [] \<Rightarrow> False | x # _ \<Rightarrow> is_word x)"

fun set_cap :: "nat \<Rightarrow> nat \<Rightarrow> string \<Rightarrow> mstate \<Rightarrow> mstate" where
  \<comment> \<open>Group \<open>n\<close>, entered after \<open>k\<close> characters with \<open>s\<close> ahead, captures what was matched since.\<close>
  "set_cap n k s (k', b', s', c') = (k', b', s', (n, take (k' - k) s) # c')"

definition past :: "nat \<Rightarrow> mstate \<Rightarrow> bool" where
  "past k st = (k < fst st)"

fun ms :: "bool \<Rightarrow> rx \<Rightarrow> mstate \<Rightarrow> mstate list" where
  "ms ic (Lit l) st = lit_rest ic l st"
| "ms ic (Cls cs) (k, b, s, c) =
     (case s of [] \<Rightarrow> [] | x # s' \<Rightarrow> if cs_ok ic cs x then [(k + 1, x # b, s', c)] else [])"
| "ms ic (Seq r1 r2) st = concat (map (ms ic r2) (ms ic r1 st))"
| "ms ic (Alt r1 r2) st = ms ic r1 st @ ms ic r2 st"
| "ms ic (Star cs) st = star_greedy ic cs st"
| "ms ic (StarLazy cs) st = star_lazy ic cs st"
| "ms ic (Opt r) (k, b, s, c) = filter (past k) (ms ic r (k, b, s, c)) @ [(k, b, s, c)]"
| "ms ic (Grp n r) (k, b, s, c) = map (set_cap n k s) (ms ic r (k, b, s, c))"
| "ms ic Bol (k, b, s, c) = (if b = [] then [(k, b, s, c)] else [])"
| "ms ic Eol (k, b, s, c) = (if s = [] then [(k, b, s, c)] else [])"
| "ms ic WordB (k, b, s, c) =
     (if word_before b \<noteq> (case s of [] \<Rightarrow> False | x # _ \<Rightarrow> is_word x) then [(k, b, s, c)] else [])"

definition Plus :: "cset \<Rightarrow> rx" where
  "Plus cs = Seq (Cls cs) (Star cs)"

definition PlusLazy :: "cset \<Rightarrow> rx" where
  "PlusLazy cs = Seq (Cls cs) (StarLazy cs)"

fun cat :: "rx list \<Rightarrow> rx" where
  "cat [] = Lit []"
| "cat [r] = r"
| "cat (r # rs) = Seq r (cat rs)"

abbreviation sp :: cset where
  "sp \<equiv> Only [ISpace]"

abbreviation wd :: cset where
  "wd \<equiv> Only [IWord]"

abbreviation anych :: cset where
  "anych \<equiv> Only [ISpace, INotSpace]"

abbreviation oneof :: "string \<Rightarrow> cset" where
  "oneof cs \<equiv> Only (map IChar cs)"

abbreviation noneof :: "string \<Rightarrow> cset" where
  "noneof cs \<equiv> Except (map IChar cs)"

text \<open>
  A match as \<open>exec\<close> and \<open>replace\<close> see it: the input before it, the matched text, the
  captures (a group that took no part has no entry) and the input after it.
\<close>

record rmatch =
  m_before :: string
  m_text :: string
  m_caps :: caps
  m_after :: string

definition grp :: "rmatch \<Rightarrow> nat \<Rightarrow> string option" where
  "grp m n = map_of (m_caps m) n"

definition match_at :: "bool \<Rightarrow> rx \<Rightarrow> string \<Rightarrow> string \<Rightarrow> (nat \<times> caps) option" where
  \<comment> \<open>The match that starts at the current position: its length and its captures.\<close>
  "match_at ic r b s =
     (case ms ic r (0, b, s, []) of [] \<Rightarrow> None | (k, b', s', c') # _ \<Rightarrow> Some (k, c'))"

definition mk_match :: "string \<Rightarrow> string \<Rightarrow> nat \<Rightarrow> caps \<Rightarrow> rmatch" where
  "mk_match b s n c = \<lparr>m_before = rev b, m_text = take n s, m_caps = c, m_after = drop n s\<rparr>"

fun rx_find :: "bool \<Rightarrow> rx \<Rightarrow> string \<Rightarrow> string \<Rightarrow> rmatch option" where
  "rx_find ic r b [] = (case match_at ic r b [] of None \<Rightarrow> None | Some (n, c) \<Rightarrow> Some (mk_match b [] n c))"
| "rx_find ic r b (x # s) =
     (case match_at ic r b (x # s) of
        None \<Rightarrow> rx_find ic r (x # b) s
      | Some (n, c) \<Rightarrow> Some (mk_match b (x # s) n c))"

definition rx_exec :: "bool \<Rightarrow> rx \<Rightarrow> string \<Rightarrow> rmatch option" where
  \<comment> \<open>\<open>s.match(re)\<close> and \<open>re.exec(s)\<close> of a pattern without the flag \<open>g\<close>: the leftmost match.\<close>
  "rx_exec ic r s = rx_find ic r [] s"

definition rx_test :: "bool \<Rightarrow> rx \<Rightarrow> string \<Rightarrow> bool" where
  "rx_test ic r s = (rx_exec ic r s \<noteq> None)"

definition rx_replace_first :: "bool \<Rightarrow> rx \<Rightarrow> string \<Rightarrow> (rmatch \<Rightarrow> string) \<Rightarrow> string" where
  \<comment> \<open>\<open>s.replace(re, f)\<close> of a pattern without the flag \<open>g\<close>.\<close>
  "rx_replace_first ic r s f =
     (case rx_exec ic r s of None \<Rightarrow> s | Some m \<Rightarrow> m_before m @ f m @ m_after m)"

lemma lit_rest_sound:
  "(k', b', s', c') \<in> set (lit_rest ic l (k, b, s, c)) \<Longrightarrow>
     \<exists>u. s = u @ s' \<and> b' = rev u @ b \<and> k' = k + length u"
proof (induction l arbitrary: k b s)
  case Nil
  then show ?case by simp
next
  case (Cons p ps)
  then show ?case
    by (cases s) (fastforce split: if_splits)+
qed

lemma star_greedy_sound:
  "(k', b', s', c') \<in> set (star_greedy ic cs (k, b, s, c)) \<Longrightarrow>
     \<exists>u. s = u @ s' \<and> b' = rev u @ b \<and> k' = k + length u"
proof (induction s arbitrary: k b)
  case Nil
  then show ?case by simp
next
  case (Cons x s)
  then show ?case by (fastforce split: if_splits)
qed

lemma star_lazy_sound:
  "(k', b', s', c') \<in> set (star_lazy ic cs (k, b, s, c)) \<Longrightarrow>
     \<exists>u. s = u @ s' \<and> b' = rev u @ b \<and> k' = k + length u"
proof (induction s arbitrary: k b)
  case Nil
  then show ?case by simp
next
  case (Cons x s)
  then show ?case by (fastforce split: if_splits)
qed

lemma ms_sound:
  "(k', b', s', c') \<in> set (ms ic r (k, b, s, c)) \<Longrightarrow>
     \<exists>u. s = u @ s' \<and> b' = rev u @ b \<and> k' = k + length u"
proof (induction r arbitrary: k b s c k' b' s' c')
  case (Lit l)
  then show ?case using lit_rest_sound by simp
next
  case (Cls cs)
  then show ?case by (cases s) (auto split: if_splits)
next
  case (Seq r1 r2)
  from Seq.prems obtain k1 b1 s1 c1 where
    a: "(k1, b1, s1, c1) \<in> set (ms ic r1 (k, b, s, c))" and
    b: "(k', b', s', c') \<in> set (ms ic r2 (k1, b1, s1, c1))"
    by auto
  from Seq.IH(1)[OF a] obtain u where u: "s = u @ s1" "b1 = rev u @ b" "k1 = k + length u" by blast
  from Seq.IH(2)[OF b] obtain v where v: "s1 = v @ s'" "b' = rev v @ b1" "k' = k1 + length v" by blast
  have "s = (u @ v) @ s' \<and> b' = rev (u @ v) @ b \<and> k' = k + length (u @ v)"
    using u v by simp
  then show ?case by blast
next
  case (Alt r1 r2)
  then show ?case by auto
next
  case (Star cs)
  then show ?case using star_greedy_sound by simp
next
  case (StarLazy cs)
  then show ?case using star_lazy_sound by simp
next
  case (Opt r)
  then show ?case by auto
next
  case (Grp n r)
  then show ?case by auto
next
  case Bol
  then show ?case by (auto split: if_splits)
next
  case Eol
  then show ?case by (auto split: if_splits)
next
  case WordB
  then show ?case by (auto split: if_splits)
qed

lemma match_at_length: "match_at ic r b s = Some (n, c) \<Longrightarrow> n \<le> length s"
proof -
  assume a: "match_at ic r b s = Some (n, c)"
  then obtain b' s' rest where "ms ic r (0, b, s, []) = (n, b', s', c) # rest"
    by (auto simp: match_at_def split: list.splits)
  then have "(n, b', s', c) \<in> set (ms ic r (0, b, s, []))" by simp
  from ms_sound[OF this] show ?thesis by auto
qed

text \<open>
  The matches of a pattern with the flag \<open>g\<close>, left to right, each with the text between
  the end of the match before it and its start, and the text after the last match. After
  an empty match the search moves on by one character.
\<close>

function rx_scan :: "bool \<Rightarrow> rx \<Rightarrow> string \<Rightarrow> string \<Rightarrow> string \<Rightarrow> (string \<times> rmatch) list \<times> string" where
  "rx_scan ic r b g s =
     (case match_at ic r b s of
        None \<Rightarrow> (case s of [] \<Rightarrow> ([], rev g) | x # s' \<Rightarrow> rx_scan ic r (x # b) (x # g) s')
      | Some (n, c) \<Rightarrow>
          if n = 0 then
            (case s of
               [] \<Rightarrow> ([(rev g, mk_match b s n c)], [])
             | x # s' \<Rightarrow>
                 (case rx_scan ic r (x # b) [x] s' of (ms', t) \<Rightarrow> ((rev g, mk_match b s n c) # ms', t)))
          else
            (case rx_scan ic r (rev (take n s) @ b) [] (drop n s) of
               (ms', t) \<Rightarrow> ((rev g, mk_match b s n c) # ms', t)))"
  by pat_completeness auto
termination
proof (relation "measure (\<lambda>(ic, r, b, g, s). length s)")
  fix ic r b g s x2 n c
  assume "match_at ic r b s = Some x2" "(n, c) = x2" "n \<noteq> 0"
  then have "match_at ic r b s = Some (n, c)" by simp
  then have "n \<le> length s" by (rule match_at_length)
  with \<open>n \<noteq> 0\<close> show "((ic, r, rev (take n s) @ b, [], drop n s), ic, r, b, g, s)
      \<in> measure (\<lambda>(ic, r, b, g, s). length s)"
    by auto
qed auto

declare rx_scan.simps [simp del]

definition rx_match_all :: "bool \<Rightarrow> rx \<Rightarrow> string \<Rightarrow> rmatch list" where
  "rx_match_all ic r s = map snd (fst (rx_scan ic r [] [] s))"

fun rx_splice :: "(rmatch \<Rightarrow> string) \<Rightarrow> (string \<times> rmatch) list \<Rightarrow> string \<Rightarrow> string" where
  "rx_splice f [] t = t"
| "rx_splice f ((g, m) # gms) t = g @ f m @ rx_splice f gms t"

definition rx_replace_all :: "bool \<Rightarrow> rx \<Rightarrow> string \<Rightarrow> (rmatch \<Rightarrow> string) \<Rightarrow> string" where
  \<comment> \<open>\<open>s.replace(re, f)\<close> of a pattern with the flag \<open>g\<close>.\<close>
  "rx_replace_all ic r s f = (case rx_scan ic r [] [] s of (gms, t) \<Rightarrow> rx_splice f gms t)"

lemma rx_splice_cong:
  "(\<And>g m. (g, m) \<in> set gms \<Longrightarrow> f m = f' m) \<Longrightarrow> rx_splice f gms t = rx_splice f' gms t"
proof (induction gms)
  case Nil
  show ?case by simp
next
  case (Cons gm gms)
  obtain g m where gm: "gm = (g, m)" by (cases gm)
  have "f m = f' m" using Cons.prems[of g m] gm by simp
  moreover have "rx_splice f gms t = rx_splice f' gms t"
  proof (rule Cons.IH)
    fix g' m'
    assume "(g', m') \<in> set gms"
    then show "f m' = f' m'" using Cons.prems[of g' m'] by simp
  qed
  ultimately show ?case using gm by simp
qed

lemma rx_replace_all_cong [fundef_cong]:
  "s = s' \<Longrightarrow> (\<And>m. m \<in> set (rx_match_all ic r s') \<Longrightarrow> f m = f' m) \<Longrightarrow>
     rx_replace_all ic r s f = rx_replace_all ic r s' f'"
proof -
  assume a: "s = s'" and b: "\<And>m. m \<in> set (rx_match_all ic r s') \<Longrightarrow> f m = f' m"
  obtain gms t where sc: "rx_scan ic r [] [] s' = (gms, t)" by (cases "rx_scan ic r [] [] s'")
  have "\<And>g m. (g, m) \<in> set gms \<Longrightarrow> f m = f' m"
  proof -
    fix g m
    assume "(g, m) \<in> set gms"
    then have "m \<in> set (rx_match_all ic r s')"
      using sc by (force simp: rx_match_all_def)
    then show "f m = f' m" by (rule b)
  qed
  then have eq: "rx_splice f gms t = rx_splice f' gms t"
    by (rule rx_splice_cong)
  show ?thesis unfolding rx_replace_all_def a sc by (simp only: eq prod.case)
qed

text \<open>
  A replacement given as a text and not as a function: \<open>$$\<close>, \<open>$&\<close>, \<open>$`\<close> and \<open>$'\<close> in it
  stand for a dollar sign, the matched text, the input before the match and the input
  after it (GetSubstitution). A \<open>$1\<close> stays as it is when the pattern has no group; the
  plugin gives a replacement text that may hold a dollar sign only to such patterns.
\<close>

fun repl_text :: "string \<Rightarrow> rmatch \<Rightarrow> string" where
  "repl_text [] m = []"
| "repl_text [x] m = [x]"
| "repl_text (x # y # t) m =
     (if x = CHR ''$'' \<and> y = CHR ''$'' then CHR ''$'' # repl_text t m
      else if x = CHR ''$'' \<and> y = CHR ''&'' then m_text m @ repl_text t m
      else if x = CHR ''$'' \<and> y = CHR 0x60 then m_before m @ repl_text t m
      else if x = CHR ''$'' \<and> y = CHR 0x27 then m_after m @ repl_text t m
      else x # repl_text (y # t) m)"

declare repl_text.simps [simp del]

fun find_sub :: "string \<Rightarrow> string \<Rightarrow> string \<Rightarrow> rmatch option" where
  "find_sub p b [] = (if p = [] then Some \<lparr>m_before = rev b, m_text = [], m_caps = [], m_after = []\<rparr> else None)"
| "find_sub p b (x # s) =
     (if startsWith (x # s) p
      then Some \<lparr>m_before = rev b, m_text = p, m_caps = [], m_after = drop (length p) (x # s)\<rparr>
      else find_sub p (x # b) s)"

definition str_replace :: "string \<Rightarrow> string \<Rightarrow> string \<Rightarrow> string" where
  \<comment> \<open>\<open>s.replace(p, t)\<close> for a text \<open>p\<close>: the first occurrence only.\<close>
  "str_replace s p t =
     (case find_sub p [] s of None \<Rightarrow> s | Some m \<Rightarrow> m_before m @ repl_text t m @ m_after m)"

section \<open>JavaScript values\<close>

text \<open>
  The values a context, a collection store and a parsed data object hold: the values of
  JSON and \<open>undefined\<close>. Numbers are the integers. An object is the list of its own
  properties in the order in which JavaScript enumerates them. A property read sees the
  own properties of an object, the elements and the length of an array and the
  characters and the length of a string; members inherited from the prototypes of the
  runtime are not part of the model.
\<close>

datatype jsval =
    JUndefined
  | JNull
  | JBool bool
  | JNum int
  | JStr string
  | JArr "jsval list"
  | JObj "(string \<times> jsval) list"

fun nullish :: "jsval \<Rightarrow> bool" where
  "nullish JUndefined = True"
| "nullish JNull = True"
| "nullish _ = False"

definition coalesce :: "jsval \<Rightarrow> jsval \<Rightarrow> jsval" where
  \<comment> \<open>\<open>a ?? b\<close>\<close>
  "coalesce a b = (if nullish a then b else a)"

definition is_digit :: "char \<Rightarrow> bool" where
  "is_digit c = (c \<in> set ''0123456789'')"

definition digit_val :: "char \<Rightarrow> nat" where
  "digit_val c = length (takeWhile (\<lambda>d. d \<noteq> c) ''0123456789'')"

definition index_key :: "string \<Rightarrow> nat option" where
  \<comment> \<open>A property name that is an array index: digits, with no leading zero.\<close>
  "index_key p =
     (if p \<noteq> [] \<and> list_all is_digit p \<and> (p = ''0'' \<or> hd p \<noteq> CHR ''0'')
      then Some (foldl (\<lambda>n c. 10 * n + digit_val c) 0 p) else None)"

fun js_get :: "jsval \<Rightarrow> string \<Rightarrow> jsval" where
  "js_get (JObj kvs) p = (case map_of kvs p of Some v \<Rightarrow> v | None \<Rightarrow> JUndefined)"
| "js_get (JArr xs) p =
     (if p = ''length'' then JNum (int (length xs))
      else case index_key p of
             Some i \<Rightarrow> if i < length xs then xs ! i else JUndefined
           | None \<Rightarrow> JUndefined)"
| "js_get (JStr s) p =
     (if p = ''length'' then JNum (int (length s))
      else case index_key p of
             Some i \<Rightarrow> if i < length s then JStr [s ! i] else JUndefined
           | None \<Rightarrow> JUndefined)"
| "js_get _ p = JUndefined"

fun js_string :: "jsval \<Rightarrow> string" where
  \<comment> \<open>\<open>String(v)\<close>\<close>
  "js_string JUndefined = ''undefined''"
| "js_string JNull = ''null''"
| "js_string (JBool b) = (if b then ''true'' else ''false'')"
| "js_string (JNum n) = show_int n"
| "js_string (JStr s) = s"
| "js_string (JArr xs) = join (map (\<lambda>v. if nullish v then [] else js_string v) xs) '',''"
| "js_string (JObj kvs) = ''[object Object]''"

fun obj_put :: "string \<Rightarrow> jsval \<Rightarrow> (string \<times> jsval) list \<Rightarrow> (string \<times> jsval) list" where
  "obj_put k v [] = [(k, v)]"
| "obj_put k v ((k', v') # kvs) = (if k = k' then (k, v) # kvs else (k', v') # obj_put k v kvs)"

definition obj_of :: "(string \<times> jsval) list \<Rightarrow> (string \<times> jsval) list" where
  \<comment> \<open>The properties of an object literal, written left to right: a later key overrides.\<close>
  "obj_of kvs = foldl (\<lambda>acc (k, v). obj_put k v acc) [] kvs"

fun spread :: "jsval \<Rightarrow> (string \<times> jsval) list" where
  \<comment> \<open>\<open>...v\<close> in an object literal: the own enumerable properties.\<close>
  "spread (JObj kvs) = kvs"
| "spread (JArr xs) = map (\<lambda>i. (show_nat i, xs ! i)) [0..<length xs]"
| "spread (JStr s) = map (\<lambda>i. (show_nat i, JStr [s ! i])) [0..<length s]"
| "spread _ = []"

section \<open>Interpolation\<close>

fun walk :: "jsval \<Rightarrow> string list \<Rightarrow> jsval" where
  "walk cur [] = coalesce cur (JStr [])"
| "walk cur (p # ps) = (if nullish cur then JStr [] else walk (js_get cur p) ps)"

definition getByPath :: "jsval \<Rightarrow> string \<Rightarrow> jsval" where
  "getByPath obj dotPath = walk obj (filter (\<lambda>p. p \<noteq> []) (split dotPath CHR ''.''))"

text \<open>
  A property read of \<open>null\<close> or \<open>undefined\<close> throws in JavaScript. \<open>getByPath\<close> reads a
  property only behind its test \<open>cur == null\<close>; \<open>getByPath_checked\<close> is the same loop with
  the read that throws, to state that it never does.
\<close>

datatype js_error = TypeError




text \<open>
  The lookup as the specification words it: the parts of a dotted path are looked up one
  after the other, and a step misses (\<open>None\<close>) when the value is \<open>null\<close> or \<open>undefined\<close> or
  has no such property.
\<close>

definition path_parts :: "string \<Rightarrow> string list" where
  "path_parts dotPath = filter (\<lambda>p. p \<noteq> []) (split dotPath CHR ''.'')"

definition own_prop :: "jsval \<Rightarrow> string \<Rightarrow> jsval option" where
  "own_prop v p = (if nullish v then None else case js_get v p of JUndefined \<Rightarrow> None | w \<Rightarrow> Some w)"

fun lookup :: "jsval \<Rightarrow> string list \<Rightarrow> jsval option" where
  "lookup v [] = Some v"
| "lookup v (p # ps) = (case own_prop v p of None \<Rightarrow> None | Some w \<Rightarrow> lookup w ps)"

definition grp_str :: "rmatch \<Rightarrow> nat \<Rightarrow> string" where
  \<comment> \<open>\<open>String(g)\<close> of a capture handed to a callback.\<close>
  "grp_str m n = (case grp m n of None \<Rightarrow> ''undefined'' | Some t \<Rightarrow> t)"

definition re_mustache :: rx where
  \<comment> \<open>\<open>/\{\{\s*([^}]+?)\s*\}\}/g\<close>\<close>
  "re_mustache = cat [Lit ''{{'', Star sp, Grp 1 (PlusLazy (noneof ''}'')), Star sp, Lit ''}}'']"

definition mustacheValue :: "jsval \<Rightarrow> rmatch \<Rightarrow> string" where
  \<comment> \<open>The callback of \<open>interpolateMustache\<close>.\<close>
  "mustacheValue ctx m = js_string (getByPath ctx (trim (grp_str m 1)))"

definition interpolateMustache :: "string \<Rightarrow> jsval \<Rightarrow> string" where
  "interpolateMustache template ctx = rx_replace_all False re_mustache template (mustacheValue ctx)"


section \<open>Fragment inclusion\<close>

text \<open>
  What the plugin takes from its host: the functions of Node's \<open>path\<close> module that
  \<open>resolvePartial\<close> and \<open>expandIncludes\<close> call, the parser \<open>JSON5.parse\<close> (\<open>None\<close> when
  it throws), the files that \<open>fs.existsSync\<close> and \<open>readText\<close> see, as a finite list
  of absolute paths with their text, the parser of node-html-parser, which gives the
  elements of a document in document order, each with its tag name in lower case and its
  attributes, and the size in bytes of a file of the output directory (\<open>None\<close> when there
  is no such file).
\<close>

record element =
  tagName :: string
  attrs :: "(string \<times> string) list"

record env =
  path_basename :: "string \<Rightarrow> string"
  path_dirname :: "string \<Rightarrow> string"
  path_join :: "string list \<Rightarrow> string"
  path_resolve :: "string \<Rightarrow> string"
  json5_parse :: "string \<Rightarrow> jsval option"
  files :: "(string \<times> string) list"
  parseHtml :: "string \<Rightarrow> element list"
  file_size :: "string \<Rightarrow> nat option"

definition re_quotes :: rx where
  \<comment> \<open>\<open>/^["']|["']$/g\<close>\<close>
  "re_quotes = Alt (Seq Bol (Cls (oneof [CHR 0x22, CHR 0x27]))) (Seq (Cls (oneof [CHR 0x22, CHR 0x27])) Eol)"

definition resolvePartial :: "env \<Rightarrow> string \<Rightarrow> string \<Rightarrow> string" where
  "resolvePartial E partialsDir partialRef =
     (let ref = rx_replace_all False re_quotes (trim partialRef) (\<lambda>_. []);
          ext = (if endsWith ref ''.html'' then [] else ''.html'');
          basename = path_basename E ref;
          dir = path_dirname E ref;
          underscore = (if startsWith basename ''_'' then basename else ''_'' @ basename)
      in path_join E [partialsDir, if dir = ''.'' then [] else dir, underscore @ ext])"

definition re_include :: rx where
  \<comment> \<open>\<open>/<%\s*([^,%]+?)\s*(?:,\s*([\s\S]*?))?\s*%>/g\<close>\<close>
  "re_include = cat [Lit ''<%'', Star sp, Grp 1 (PlusLazy (noneof '',%'')), Star sp,
     Opt (cat [Lit '','', Star sp, Grp 2 (StarLazy anych)]), Star sp, Lit ''%>'']"

definition includeData :: "env \<Rightarrow> rmatch \<Rightarrow> jsval" where
  \<comment> \<open>The data object of an inclusion: empty when there is no data text or it does not parse.\<close>
  "includeData E m =
     (case grp m 2 of
        None \<Rightarrow> JObj []
      | Some rawData \<Rightarrow>
          if rawData \<noteq> [] \<and> trim rawData \<noteq> [] then
            (case json5_parse E (trim rawData) of Some v \<Rightarrow> v | None \<Rightarrow> JObj [])
          else JObj [])"

definition nextContext :: "jsval \<Rightarrow> jsval \<Rightarrow> jsval" where
  \<comment> \<open>\<open>{ ...ctx, data: { ...(ctx?.data ?? {}), ...(dataObj ?? {}) } }\<close>\<close>
  "nextContext ctx dataObj =
     JObj (obj_of (spread ctx @
       [(''data'', JObj (obj_of
           (spread (coalesce (if nullish ctx then JUndefined else js_get ctx ''data'') (JObj [])) @
            spread (coalesce dataObj (JObj [])))))]))"

definition unvisited :: "env \<Rightarrow> string list \<Rightarrow> nat" where
  \<comment> \<open>The files that are not on the inclusion stack.\<close>
  "unvisited E stack = card (fst ` set (files E) - set stack)"

lemma unvisited_push:
  assumes "map_of (files E) p = Some t" and "p \<notin> set stack"
  shows "unvisited E (stack @ [p]) < unvisited E stack"
proof -
  have fin: "finite (fst ` set (files E) - set stack)" by simp
  have mem: "p \<in> fst ` set (files E) - set stack"
    using assms by (auto dest: map_of_SomeD intro: rev_image_eqI)
  have eq: "fst ` set (files E) - set (stack @ [p]) = (fst ` set (files E) - set stack) - {p}"
    by auto
  have "card ((fst ` set (files E) - set stack) - {p}) < card (fst ` set (files E) - set stack)"
    using fin mem by (rule card_Diff1_less)
  then show ?thesis
    unfolding unvisited_def eq .
qed

function expandIncludes :: "env \<Rightarrow> string \<Rightarrow> string \<Rightarrow> jsval \<Rightarrow> string list \<Rightarrow> bool \<Rightarrow> string"
  and includeOne :: "env \<Rightarrow> string \<Rightarrow> jsval \<Rightarrow> string list \<Rightarrow> rmatch \<Rightarrow> string" where
  "expandIncludes E partialsDir html ctx stack skipFinalInterpolation =
     (let html' = rx_replace_all False re_include html (\<lambda>m. includeOne E partialsDir ctx stack m)
      in if skipFinalInterpolation then html' else interpolateMustache html' ctx)"
| "includeOne E partialsDir ctx stack m =
     (let partialRef = trim (grp_str m 1);
          resolved = resolvePartial E partialsDir partialRef;
          absp = path_resolve E resolved
      in case map_of (files E) absp of
           None \<Rightarrow> ''<!-- monad:missing-partial '' @ partialRef @ '' -->''
         | Some partialRaw \<Rightarrow>
             if absp \<in> set stack then ''<!-- monad:cycle '' @ partialRef @ '' -->''
             else
               let dataObj = includeData E m;
                   nextCtx = nextContext ctx dataObj;
                   expanded = expandIncludes E partialsDir partialRaw nextCtx (stack @ [absp]) False
               in interpolateMustache expanded nextCtx)"
  by pat_completeness auto

lemma expandIncludes_calls_end: "All expandIncludes_includeOne_dom"
proof (relation "measure (\<lambda>x. case x of
          Inl (E, d, h, c, stack, k) \<Rightarrow> 2 * unvisited E stack + 1
        | Inr (E, d, c, stack, m) \<Rightarrow> 2 * unvisited E stack)")
  fix E :: "(unit) env_scheme" and partialsDir :: string and ctx :: jsval and stack :: "string list"
    and m :: rmatch and x xa xb x2 xc xd
  assume "x = trim (grp_str m 1)" "xa = resolvePartial E partialsDir x" "xb = path_resolve E xa"
    "map_of (files E) xb = Some x2" "xb \<notin> set stack" "xc = includeData E m" "xd = nextContext ctx xc"
  then have "unvisited E (stack @ [xb]) < unvisited E stack"
    using unvisited_push by blast
  then show "(Inl (E, partialsDir, x2, xd, stack @ [xb], False), Inr (E, partialsDir, ctx, stack, m))
       \<in> measure (\<lambda>x. case x of
          Inl (E, d, h, c, stack, k) \<Rightarrow> 2 * unvisited E stack + 1
        | Inr (E, d, c, stack, m) \<Rightarrow> 2 * unvisited E stack)"
    by simp
qed auto

termination expandIncludes
  by (rule expandIncludes_calls_end)


subsection \<open>A POSIX host\<close>

text \<open>
  Node's \<open>path\<close> module on a POSIX host, after its documentation, for the runs on
  concrete inputs below. The theorems about \<open>expandIncludes\<close> hold for every host.
\<close>

definition strip_slashes :: "string \<Rightarrow> string" where
  "strip_slashes p = rev (dropWhile (\<lambda>c. c = CHR ''/'') (rev p))"

definition posix_basename :: "string \<Rightarrow> string" where
  "posix_basename p = rev (takeWhile (\<lambda>c. c \<noteq> CHR ''/'') (rev (strip_slashes p)))"

definition posix_dirname :: "string \<Rightarrow> string" where
  "posix_dirname p =
     (case p of
        [] \<Rightarrow> ''.''
      | x # t \<Rightarrow>
          (let e = length (dropWhile (\<lambda>c. c \<noteq> CHR ''/'') (rev (strip_slashes t)))
           in if e = 0 then (if x = CHR ''/'' then ''/'' else ''.'')
              else if x = CHR ''/'' \<and> e = 1 then ''//''
              else take e p))"

fun normalize_segs :: "bool \<Rightarrow> string list \<Rightarrow> string list \<Rightarrow> string list" where
  \<comment> \<open>The segments kept so far are held in reverse.\<close>
  "normalize_segs up acc [] = rev acc"
| "normalize_segs up acc (g # gs) =
     (if g = [] \<or> g = ''.'' then normalize_segs up acc gs
      else if g = ''..'' then
        (case acc of
           [] \<Rightarrow> normalize_segs up (if up then [g] else []) gs
         | a # acc' \<Rightarrow>
             if a = ''..'' then normalize_segs up (g # acc) gs
             else normalize_segs up acc' gs)
      else normalize_segs up (g # acc) gs)"

definition posix_normalize :: "string \<Rightarrow> string" where
  "posix_normalize p =
     (if p = [] then ''.''
      else
        (let isAbsolute = (hd p = CHR ''/'');
             trailing = (last p = CHR ''/'');
             q = join (normalize_segs (\<not> isAbsolute) [] (split p CHR ''/'')) ''/'';
             q1 = (if q = [] then (if isAbsolute then [] else if trailing then ''./'' else ''.'')
                   else if trailing then q @ ''/'' else q)
         in if isAbsolute then CHR ''/'' # q1 else q1))"

definition posix_join :: "string list \<Rightarrow> string" where
  "posix_join ps =
     (let joined = join (filter (\<lambda>p. p \<noteq> []) ps) ''/''
      in if joined = [] then ''.'' else posix_normalize joined)"

definition posix_resolve :: "string \<Rightarrow> string \<Rightarrow> string" where
  \<comment> \<open>\<open>path.resolve(p)\<close> in the working directory \<open>cwd\<close>, an absolute path.\<close>
  "posix_resolve cwd p =
     (let full = (if p \<noteq> [] \<and> hd p = CHR ''/'' then p else if p = [] then cwd else cwd @ ''/'' @ p)
      in CHR ''/'' # join (normalize_segs False [] (split full CHR ''/'')) ''/'')"

definition no_json :: "string \<Rightarrow> jsval option" where
  "no_json t = None"

definition no_elements :: "string \<Rightarrow> element list" where
  "no_elements t = []"

definition no_file :: "string \<Rightarrow> nat option" where
  "no_file p = None"

definition posix_host :: "string \<Rightarrow> (string \<times> string) list \<Rightarrow> env" where
  \<comment> \<open>A host with the files \<open>fs\<close>, on which no data text parses and no document has elements.\<close>
  "posix_host cwd fs =
     \<lparr>path_basename = posix_basename, path_dirname = posix_dirname, path_join = posix_join,
      path_resolve = posix_resolve cwd, json5_parse = no_json, files = fs,
      parseHtml = no_elements, file_size = no_file\<rparr>"


section \<open>Route mapping\<close>









section \<open>Page metadata\<close>

definition re_meta :: rx where
  \<comment> \<open>\<open>/<!--\s*monad\s*([\s\S]*?)-->/i\<close>\<close>
  "re_meta = cat [Lit ''<!--'', Star sp, Lit ''monad'', Star sp, Grp 1 (StarLazy anych), Lit ''-->'']"

definition tryParsePageMeta :: "env \<Rightarrow> string \<Rightarrow> jsval \<times> string" where
  "tryParsePageMeta E raw =
     (case rx_exec True re_meta raw of
        None \<Rightarrow> (JObj [], raw)
      | Some m \<Rightarrow>
          (let block = trim (grp_str m 1)
           in case json5_parse E block of
                Some meta \<Rightarrow> (meta, trim (rx_replace_first True re_meta raw (repl_text [])))
              | None \<Rightarrow> (JObj [], trim (rx_replace_first True re_meta raw (repl_text [])))))"

section \<open>The audit\<close>

record audit_opts =
  distDirAbs :: "string option"
  maxImageBytes :: "nat option"
  allRoutes :: "string list option"

definition re_title :: rx where
  \<comment> \<open>\<open>/<title>\s*[^<]+\s*<\/title>/i\<close>\<close>
  "re_title = cat [Lit ''<title>'', Star sp, Plus (noneof ''<''), Star sp, Lit ''</title>'']"

abbreviation quote_chars :: string where
  "quote_chars \<equiv> [CHR 0x22, CHR 0x27]"

definition re_metadesc :: rx where
  \<comment> \<open>\<open>/<meta\s+name=["']description["']\s+content=["'][^"']+["']\s*\/?>/i\<close>\<close>
  "re_metadesc = cat [Lit ''<meta'', Plus sp, Lit ''name='', Cls (oneof quote_chars),
     Lit ''description'', Cls (oneof quote_chars), Plus sp, Lit ''content='',
     Cls (oneof quote_chars), Plus (noneof quote_chars), Cls (oneof quote_chars),
     Star sp, Opt (Lit ''/''), Lit ''>'']"

definition re_h1 :: rx where
  \<comment> \<open>\<open>/<h1\b/gi\<close>\<close>
  "re_h1 = cat [Lit ''<h1'', WordB]"

definition re_rel :: "string \<Rightarrow> rx" where
  \<comment> \<open>\<open>/rel=["']icon["']/i\<close>, and the same for \<open>shortcut icon\<close> and \<open>canonical\<close>\<close>
  "re_rel v = cat [Lit ''rel='', Cls (oneof quote_chars), Lit v, Cls (oneof quote_chars)]"

definition re_lead_slash :: rx where
  \<comment> \<open>\<open>/^\//\<close>\<close>
  "re_lead_slash = cat [Bol, Lit ''/'']"

definition or_empty :: "string option \<Rightarrow> string" where
  \<comment> \<open>\<open>v ?? ""\<close>\<close>
  "or_empty v = (case v of None \<Rightarrow> [] | Some t \<Rightarrow> t)"

definition getAttribute :: "element \<Rightarrow> string \<Rightarrow> string option" where
  "getAttribute e n = map_of (attrs e) n"

definition is_img :: "element \<Rightarrow> bool" where
  "is_img e = (tagName e = ''img'')"

definition is_link :: "element \<Rightarrow> bool" where
  \<comment> \<open>the selector \<open>a[href]\<close>\<close>
  "is_link e = (tagName e = ''a'' \<and> getAttribute e ''href'' \<noteq> None)"

definition round_kb :: "nat \<Rightarrow> nat" where
  \<comment> \<open>\<open>Math.round(n / 1024)\<close>\<close>
  "round_kb n = (2 * n + 1024) div 2048"

definition altWarning :: "element \<Rightarrow> string list" where
  \<comment> \<open>\<open>if (alt == null || alt.trim() === "") warnings.push(...)\<close>\<close>
  "altWarning img =
     (let alt = getAttribute img ''alt''
      in if alt = None \<or> trim (or_empty alt) = [] then [''Image missing alt attribute''] else [])"

definition sizeWarning :: "env \<Rightarrow> audit_opts option \<Rightarrow> element \<Rightarrow> string list" where
  \<comment> \<open>The check of the size on disk, for an image under the output directory.\<close>
  "sizeWarning E opts img =
     (let src = or_empty (getAttribute img ''src'');
          maxBytes = (case opts of None \<Rightarrow> 500000
                      | Some ob \<Rightarrow> (case maxImageBytes ob of None \<Rightarrow> 500000 | Some n \<Rightarrow> n));
          dist = (case opts of None \<Rightarrow> None | Some ob \<Rightarrow> distDirAbs ob)
      in case dist of
           None \<Rightarrow> []
         | Some d \<Rightarrow>
             if d \<noteq> [] \<and> startsWith src ''/'' then
               (case file_size E (path_join E [d, rx_replace_first False re_lead_slash src (repl_text [])]) of
                  None \<Rightarrow> []
                | Some sz \<Rightarrow>
                    if sz > maxBytes then
                      [''Large image ('' @ show_nat (round_kb sz) @ '' KB): '' @ src @
                       '' (budget '' @ show_nat (round_kb maxBytes) @ '' KB)'']
                    else [])
             else [])"

definition imgWarnings :: "env \<Rightarrow> audit_opts option \<Rightarrow> element \<Rightarrow> string list" where
  \<comment> \<open>The body of the loop over the images.\<close>
  "imgWarnings E opts img = altWarning img @ sizeWarning E opts img"

definition slashed :: "string \<Rightarrow> string" where
  "slashed r = (if endsWith r ''/'' then r else r @ ''/'')"

definition routeMatches :: "string \<Rightarrow> string \<Rightarrow> bool" where
  \<comment> \<open>The callback of \<open>allRoutes.some\<close>.\<close>
  "routeMatches cleanHref route = (route = cleanHref \<or> slashed route = slashed cleanHref)"

definition linkWarnings :: "string list \<Rightarrow> element \<Rightarrow> string list" where
  "linkWarnings routes link =
     (let href = or_empty (getAttribute link ''href'')
      in if startsWith href ''/'' \<and> \<not> startsWith href ''//'' then
           (let cleanHref = hd (split (hd (split href CHR ''?'')) CHR ''#'')
            in if list_ex (routeMatches cleanHref) routes then []
               else [''Broken internal link: '' @ href])
         else [])"

definition is_link_warning :: "string \<Rightarrow> bool" where
  \<comment> \<open>The warnings of the internal link check, told by their text.\<close>
  "is_link_warning w = startsWith w ''Broken internal link: ''"

definition checkLinks :: "audit_opts option \<Rightarrow> element list \<Rightarrow> string list" where
  \<comment> \<open>The internal link check, made when the route table is given.\<close>
  "checkLinks opts root =
     (case opts of
        None \<Rightarrow> []
      | Some ob \<Rightarrow>
          (case allRoutes ob of
             None \<Rightarrow> []
           | Some routes \<Rightarrow> concat (map (linkWarnings routes) (filter is_link root))))"

definition auditHtml :: "env \<Rightarrow> string \<Rightarrow> string \<Rightarrow> audit_opts option \<Rightarrow> string list" where
  "auditHtml E html route opts =
     (let h1 = length (rx_match_all True re_h1 html);
          root = parseHtml E html
      in (if \<not> rx_test True re_title html then [''Missing <title>''] else []) @
         (if \<not> rx_test True re_metadesc html then [''Missing meta description''] else []) @
         (if h1 = 0 then [''Missing <h1>''] else []) @
         (if h1 > 1 then [''Multiple <h1> ('' @ show_nat h1 @ '')''] else []) @
         concat (map (imgWarnings E opts) (filter is_img root)) @
         checkLinks opts root @
         (if \<not> rx_test True (re_rel ''icon'') html \<and> \<not> rx_test True (re_rel ''shortcut icon'') html
          then [''No favicon <link rel=\"icon\"> found (consider adding)''] else []) @
         (if \<not> rx_test True (re_rel ''canonical'') html then [''Missing canonical link tag''] else []))"


section \<open>Collection loops\<close>

definition hex_digit :: "nat \<Rightarrow> char" where
  "hex_digit d = ''0123456789abcdef'' ! (d mod 16)"

definition json_char :: "char \<Rightarrow> string" where
  \<comment> \<open>A character of a text in the output of \<open>JSON.stringify\<close>.\<close>
  "json_char c =
     (if c = CHR 0x22 then [CHR 0x5C, CHR 0x22]
      else if c = CHR 0x5C then [CHR 0x5C, CHR 0x5C]
      else if c = CHR 0x08 then [CHR 0x5C, CHR ''b'']
      else if c = CHR 0x09 then [CHR 0x5C, CHR ''t'']
      else if c = CHR 0x0A then [CHR 0x5C, CHR ''n'']
      else if c = CHR 0x0C then [CHR 0x5C, CHR ''f'']
      else if c = CHR 0x0D then [CHR 0x5C, CHR ''r'']
      else if (of_char c :: nat) < 32
        then [CHR 0x5C, CHR ''u'', CHR ''0'', CHR ''0'', hex_digit (of_char c div 16), hex_digit (of_char c)]
      else [c])"

definition json_quote :: "string \<Rightarrow> string" where
  "json_quote t = CHR 0x22 # concat (map json_char t) @ [CHR 0x22]"

fun json_stringify :: "jsval \<Rightarrow> string option" where
  \<comment> \<open>\<open>JSON.stringify(v)\<close>; \<open>None\<close> is \<open>undefined\<close>.\<close>
  "json_stringify JUndefined = None"
| "json_stringify JNull = Some ''null''"
| "json_stringify (JBool b) = Some (if b then ''true'' else ''false'')"
| "json_stringify (JNum n) = Some (show_int n)"
| "json_stringify (JStr t) = Some (json_quote t)"
| "json_stringify (JArr xs) =
     Some (''['' @ join (map (\<lambda>v. case json_stringify v of None \<Rightarrow> ''null'' | Some t \<Rightarrow> t) xs) '','' @ '']'')"
| "json_stringify (JObj kvs) =
     Some (''{'' @ join (concat (map (\<lambda>(k, v). case json_stringify v of
                                                  None \<Rightarrow> []
                                                | Some t \<Rightarrow> [json_quote k @ '':'' @ t]) kvs)) '','' @ ''}'')"

definition re_loop :: rx where
  \<comment> \<open>\<open>/<!--\s*monad:loop\s+(\w+)\s+in\s+([\w.]+)\s*-->([\s\S]*?)<!--\s*monad:endloop\s*-->/g\<close>\<close>
  "re_loop = cat [Lit ''<!--'', Star sp, Lit ''monad:loop'', Plus sp, Grp 1 (Plus wd), Plus sp,
     Lit ''in'', Plus sp, Grp 2 (Plus (Only [IWord, IChar CHR ''.''])), Star sp, Lit ''-->'',
     Grp 3 (StarLazy anych), Lit ''<!--'', Star sp, Lit ''monad:endloop'', Star sp, Lit ''-->'']"

definition re_field :: "string \<Rightarrow> rx" where
  \<comment> \<open>\<open>new RegExp(`{{\\s*${itemVar}\\.(\\w+)\\s*}}`, 'g')\<close>; \<open>itemVar\<close> is made of word characters\<close>
  "re_field itemVar = cat [Lit ''{{'', Star sp, Lit (itemVar @ ''.''), Grp 1 (Plus wd), Star sp, Lit ''}}'']"

definition re_bare :: "string \<Rightarrow> rx" where
  \<comment> \<open>\<open>new RegExp(`{{\\s*${itemVar}\\s*}}`, 'g')\<close>\<close>
  "re_bare itemVar = cat [Lit ''{{'', Star sp, Lit itemVar, Star sp, Lit ''}}'']"

definition fieldValue :: "jsval \<Rightarrow> rmatch \<Rightarrow> string" where
  \<comment> \<open>The callback \<open>(_, field) => item[field] ?? ''\<close>, its result as \<open>replace\<close> inserts it.\<close>
  "fieldValue item m = js_string (coalesce (js_get item (grp_str m 1)) (JStr []))"

definition renderItem :: "string \<Rightarrow> string \<Rightarrow> jsval \<Rightarrow> nat \<Rightarrow> js_error + string" where
  \<comment> \<open>The body of \<open>collection.forEach\<close>. Reading a field of \<open>null\<close> throws.\<close>
  "renderItem itemVar template item index =
     (if nullish item \<and> rx_match_all False (re_field itemVar) template \<noteq> [] then Inl TypeError
      else
        (let h1 = rx_replace_all False (re_field itemVar) template (fieldValue item);
             h2 = rx_replace_all False (re_bare itemVar) h1
                    (repl_text (case json_stringify item of None \<Rightarrow> ''undefined'' | Some t \<Rightarrow> t));
             h3 = rx_replace_all False (Lit ''{{@index}}'') h2 (repl_text (show_nat index));
             h4 = rx_replace_all False (Lit ''{{@index1}}'') h3 (repl_text (show_nat (index + 1)))
         in Inr h4))"

fun renderItems :: "string \<Rightarrow> string \<Rightarrow> jsval list \<Rightarrow> nat \<Rightarrow> js_error + string" where
  "renderItems itemVar template [] index = Inr []"
| "renderItems itemVar template (item # items) index =
     (case renderItem itemVar template item index of
        Inl e \<Rightarrow> Inl e
      | Inr itemHtml \<Rightarrow>
          (case renderItems itemVar template items (index + 1) of
             Inl e \<Rightarrow> Inl e
           | Inr rest \<Rightarrow> Inr (itemHtml @ rest)))"

definition loopStep :: "jsval \<Rightarrow> string \<Rightarrow> rmatch \<Rightarrow> js_error + string" where
  \<comment> \<open>One turn of the \<open>while\<close> loop over the matches of the loop pattern.\<close>
  "loopStep collections result m =
     (let fullMatch = m_text m;
          itemVar = grp_str m 1;
          collectionPath = grp_str m 2;
          template = grp_str m 3
      in case getByPath collections collectionPath of
           JArr items \<Rightarrow>
             (case renderItems itemVar template items 0 of
                Inl e \<Rightarrow> Inl e
              | Inr rendered \<Rightarrow> Inr (str_replace result fullMatch rendered))
         | _ \<Rightarrow> Inr (str_replace result fullMatch (''<!-- Collection '' @ collectionPath @ '' not found -->'')))"

fun loopAll :: "jsval \<Rightarrow> string \<Rightarrow> rmatch list \<Rightarrow> js_error + string" where
  "loopAll collections result [] = Inr result"
| "loopAll collections result (m # ms') =
     (case loopStep collections result m of
        Inl e \<Rightarrow> Inl e
      | Inr result' \<Rightarrow> loopAll collections result' ms')"

definition expandCollectionLoops :: "string \<Rightarrow> jsval \<Rightarrow> js_error + string" where
  "expandCollectionLoops html collections = loopAll collections html (rx_match_all False re_loop html)"

text \<open>
  The body of a page in \<open>renderAll\<close>: the inclusions, with the last interpolation put off
  when collections are enabled, then the loops, then the interpolation.
\<close>

definition renderBody :: "env \<Rightarrow> string \<Rightarrow> string \<Rightarrow> jsval \<Rightarrow> bool \<Rightarrow> jsval \<Rightarrow> js_error + string" where
  "renderBody E partialsDir pageBodyTemplate ctx collectionsEnabled collections =
     (let renderedBody = expandIncludes E partialsDir pageBodyTemplate ctx [] collectionsEnabled
      in case (if collectionsEnabled \<and> spread collections \<noteq> []
               then expandCollectionLoops renderedBody collections else Inr renderedBody) of
           Inl e \<Rightarrow> Inl e
         | Inr looped \<Rightarrow> Inr (interpolateMustache looped ctx))"

section \<open>The end of the build\<close>















section \<open>Theorems\<close>

subsection \<open>The end of the build\<close>










subsection \<open>Route mapping\<close>























lemma rx_scan_match:
  "match_at ic r b s = Some (n, c) \<Longrightarrow> n \<noteq> 0 \<Longrightarrow>
     rx_scan ic r b g s =
       (case rx_scan ic r (rev (take n s) @ b) [] (drop n s) of
          (gms, t) \<Rightarrow> ((rev g, mk_match b s n c) # gms, t))"
  by (subst rx_scan.simps) simp

lemma rx_scan_skip:
  "match_at ic r b (x # s) = None \<Longrightarrow> rx_scan ic r b g (x # s) = rx_scan ic r (x # b) (x # g) s"
  by (subst rx_scan.simps) simp

lemma rx_scan_end: "match_at ic r b [] = None \<Longrightarrow> rx_scan ic r b g [] = ([], rev g)"
  by (subst rx_scan.simps) simp
















subsection \<open>Page metadata\<close>

lemma rx_find_parts: "rx_find ic r b s = Some m \<Longrightarrow> m_before m @ m_text m @ m_after m = rev b @ s"
proof (induction s arbitrary: b)
  case Nil
  then show ?case by (auto simp: mk_match_def split: option.splits)
next
  case (Cons x s)
  show ?case
  proof (cases "match_at ic r b (x # s)")
    case None
    with Cons.prems have "rx_find ic r (x # b) s = Some m" by simp
    from Cons.IH[OF this] show ?thesis by simp
  next
    case (Some nc)
    obtain n c where "nc = (n, c)" by (cases nc)
    with Some Cons.prems have "m = mk_match b (x # s) n c" by simp
    then show ?thesis by (simp add: mk_match_def)
  qed
qed

lemma rx_exec_parts: "rx_exec ic r s = Some m \<Longrightarrow> s = m_before m @ m_text m @ m_after m"
  using rx_find_parts[of ic r "[]" s m] by (simp add: rx_exec_def)

definition parse_empty_object :: "string \<Rightarrow> jsval option" where
  \<comment> \<open>A parser that knows the text of the empty object only.\<close>
  "parse_empty_object t = (if t = ''{}'' then Some (JObj []) else None)"

definition a_page_text :: string where
  "a_page_text = ''<p>x</p><!-- monad {} --> <p>y</p> ''"

text \<open>
  C6, as the code has it. When no block of the form \<open><!-- monad ... -->\<close> is found, the
  metadata is empty and the body is the whole text. When one is found, the body is the
  whole text with the first such block taken out, the text before the block kept, and
  white space trimmed at both ends; the metadata is the parsed content of the block, or
  empty when the content does not parse. There is no other outcome: a content that does
  not parse stops nothing.
\<close>

theorem tryParsePageMeta_body:
  "(rx_exec True re_meta raw = None \<longrightarrow> tryParsePageMeta E raw = (JObj [], raw)) \<and>
   (rx_exec True re_meta raw = Some m \<longrightarrow>
      raw = m_before m @ m_text m @ m_after m \<and>
      snd (tryParsePageMeta E raw) = trim (m_before m @ m_after m) \<and>
      fst (tryParsePageMeta E raw) =
        (case json5_parse E (trim (grp_str m 1)) of Some meta \<Rightarrow> meta | None \<Rightarrow> JObj []))"
proof (intro conjI impI)
  assume "rx_exec True re_meta raw = None"
  then show "tryParsePageMeta E raw = (JObj [], raw)" by (simp add: tryParsePageMeta_def)
next
  assume a: "rx_exec True re_meta raw = Some m"
  then show "raw = m_before m @ m_text m @ m_after m" by (rule rx_exec_parts)
  have r: "rx_replace_first True re_meta raw (repl_text []) = m_before m @ m_after m"
    using a by (simp add: rx_replace_first_def repl_text.simps(1))
  show "snd (tryParsePageMeta E raw) = trim (m_before m @ m_after m)"
    using a r by (simp add: tryParsePageMeta_def Let_def split: option.splits)
  show "fst (tryParsePageMeta E raw) =
      (case json5_parse E (trim (grp_str m 1)) of Some meta \<Rightarrow> meta | None \<Rightarrow> JObj [])"
    using a by (simp add: tryParsePageMeta_def Let_def split: option.splits)
qed

theorem tryParsePageMeta_body_witness:
  "rx_exec True re_meta a_page_text =
     Some \<lparr>m_before = ''<p>x</p>'', m_text = ''<!-- monad {} -->'', m_caps = [(1, ''{} '')],
           m_after = '' <p>y</p> ''\<rparr> \<and>
   snd (tryParsePageMeta (posix_host ''/'' []) a_page_text) = ''<p>x</p> <p>y</p>'' \<and>
   fst (tryParsePageMeta (posix_host ''/'' []) a_page_text) = JObj [] \<and>
   rx_exec True re_meta ''<p>y</p>'' = None \<and>
   tryParsePageMeta (posix_host ''/'' []) ''<p>y</p>'' = (JObj [], ''<p>y</p>'')"
proof -
  let ?m = "\<lparr>m_before = ''<p>x</p>'', m_text = ''<!-- monad {} -->'', m_caps = [(1, ''{} '')],
           m_after = '' <p>y</p> ''\<rparr>"
  have e: "rx_exec True re_meta a_page_text = Some ?m" by code_simp
  have n: "rx_exec True re_meta ''<p>y</p>'' = None" by code_simp
  have t: "trim (m_before ?m @ m_after ?m) = ''<p>x</p> <p>y</p>''" by code_simp
  have p: "json5_parse (posix_host ''/'' []) (trim (grp_str ?m 1)) = None"
    by (simp add: posix_host_def no_json_def)
  from tryParsePageMeta_body[of a_page_text "posix_host ''/'' []" ?m] e t p
  have "snd (tryParsePageMeta (posix_host ''/'' []) a_page_text) = ''<p>x</p> <p>y</p>''"
    and "fst (tryParsePageMeta (posix_host ''/'' []) a_page_text) = JObj []"
    by simp_all
  moreover from tryParsePageMeta_body[of "''<p>y</p>''" "posix_host ''/'' []" ?m] n
  have "tryParsePageMeta (posix_host ''/'' []) ''<p>y</p>'' = (JObj [], ''<p>y</p>'')"
    by simp
  ultimately show ?thesis using e n by simp
qed

text \<open>
  C6 as stated fails when text stands before the block: the body is not what follows the
  block, it keeps the text before it.
\<close>

theorem tryParsePageMeta_before_counterexample:
  "tryParsePageMeta ((posix_host ''/'' [])\<lparr>json5_parse := parse_empty_object\<rparr>) a_page_text =
     (JObj [], ''<p>x</p> <p>y</p>'') \<and>
   snd (tryParsePageMeta ((posix_host ''/'' [])\<lparr>json5_parse := parse_empty_object\<rparr>) a_page_text)
     \<noteq> ''<p>y</p>''"
  by code_simp


subsection \<open>Interpolation\<close>

lemma rx_scan_parts: "rx_scan ic r b g s = (gms, t) \<Longrightarrow> rx_splice m_text gms t = rev g @ s"
proof (induction ic r b g s arbitrary: gms t rule: rx_scan.induct)
  case (1 ic r b g s)
  show ?case
  proof (cases "match_at ic r b s")
    case None
    show ?thesis
    proof (cases s)
      case Nil
      with None "1.prems" show ?thesis by (simp add: rx_scan_end)
    next
      case (Cons x s')
      with None "1.prems" have "rx_scan ic r (x # b) (x # g) s' = (gms, t)"
        by (simp add: rx_scan_skip)
      from "1.IH"(1)[OF None Cons this] show ?thesis using Cons by simp
    qed
  next
    case (Some nc)
    obtain n c where nc: "nc = (n, c)" by (cases nc)
    show ?thesis
    proof (cases "n = 0")
      case True
      show ?thesis
      proof (cases s)
        case Nil
        with Some nc True "1.prems" show ?thesis
          by (auto simp: rx_scan.simps[of ic r b g "[]"] mk_match_def)
      next
        case (Cons x s')
        obtain gms' t' where sc: "rx_scan ic r (x # b) [x] s' = (gms', t')"
          by (cases "rx_scan ic r (x # b) [x] s'")
        with Some nc True Cons "1.prems" have "gms = (rev g, mk_match b s n c) # gms'" "t = t'"
          by (simp_all add: rx_scan.simps[of ic r b g "x # s'"])
        moreover from "1.IH"(2)[OF Some nc[symmetric] True Cons sc] have "rx_splice m_text gms' t' = x # s'"
          by simp
        ultimately show ?thesis using True Cons by (simp add: mk_match_def)
      qed
    next
      case False
      obtain gms' t' where sc: "rx_scan ic r (rev (take n s) @ b) [] (drop n s) = (gms', t')"
        by (cases "rx_scan ic r (rev (take n s) @ b) [] (drop n s)")
      with Some nc False "1.prems" have "gms = (rev g, mk_match b s n c) # gms'" "t = t'"
        using rx_scan_match[of ic r b s n c g] by simp_all
      moreover from "1.IH"(3)[OF Some nc[symmetric] False sc] have "rx_splice m_text gms' t' = drop n s"
        by simp
      ultimately show ?thesis by (simp add: mk_match_def)
    qed
  qed
qed


lemma walk_undefined: "walk JUndefined ps = JStr []"
  by (cases ps) (simp_all add: coalesce_def)

lemma walk_lookup:
  "walk v ps = (case lookup v ps of None \<Rightarrow> JStr [] | Some w \<Rightarrow> coalesce w (JStr []))"
proof (induction ps arbitrary: v)
  case Nil
  show ?case by simp
next
  case (Cons p ps)
  show ?case
  proof (cases "nullish v")
    case True
    then show ?thesis by (simp add: own_prop_def)
  next
    case False
    show ?thesis
    proof (cases "js_get v p = JUndefined")
      case True
      with False show ?thesis by (simp add: own_prop_def walk_undefined)
    next
      case u: False
      with False have "own_prop v p = Some (js_get v p)"
        by (cases "js_get v p") (simp_all add: own_prop_def)
      with False Cons.IH[of "js_get v p"] show ?thesis by simp
    qed
  qed
qed


lemma js_string_empty: "js_string (JStr []) = []"
  by simp


definition a_context :: jsval where
  "a_context = JObj [(''page'', JObj [(''title'', JStr ''T'')]), (''data'', JObj [])]"



subsection \<open>Fragment inclusion\<close>

text \<open>
  The fragment an inclusion tag resolves to, the fragments the tags of a text resolve to,
  and the dependency graph of the fragments: \<open>p\<close> depends on \<open>q\<close> when the text of \<open>p\<close> has
  a tag that resolves to \<open>q\<close>. A chain is a path of this graph that visits no fragment
  twice.
\<close>

definition fragment_target :: "env \<Rightarrow> string \<Rightarrow> rmatch \<Rightarrow> string" where
  "fragment_target E dir m = path_resolve E (resolvePartial E dir (trim (grp_str m 1)))"

definition includes_of :: "env \<Rightarrow> string \<Rightarrow> string \<Rightarrow> string list" where
  "includes_of E dir html = map (fragment_target E dir) (rx_match_all False re_include html)"

definition depends :: "env \<Rightarrow> string \<Rightarrow> string \<Rightarrow> string \<Rightarrow> bool" where
  "depends E dir p q = (case map_of (files E) p of None \<Rightarrow> False | Some t \<Rightarrow> q \<in> set (includes_of E dir t))"

definition chains :: "env \<Rightarrow> string \<Rightarrow> string list set" where
  "chains E dir = {c. distinct c \<and> set c \<subseteq> fst ` set (files E) \<and> successively (depends E dir) c}"

definition longest_chain :: "env \<Rightarrow> string \<Rightarrow> nat" where
  "longest_chain E dir = Max (length ` chains E dir)"

lemma includeOne_missing:
  "map_of (files E) (fragment_target E dir m) = None \<Longrightarrow>
     includeOne E dir ctx stack m = ''<!-- monad:missing-partial '' @ trim (grp_str m 1) @ '' -->''"
  by (simp add: fragment_target_def Let_def)

lemma includeOne_cycle:
  "map_of (files E) (fragment_target E dir m) = Some raw \<Longrightarrow> fragment_target E dir m \<in> set stack \<Longrightarrow>
     includeOne E dir ctx stack m = ''<!-- monad:cycle '' @ trim (grp_str m 1) @ '' -->''"
  by (simp add: fragment_target_def Let_def)

lemma includeOne_expand:
  "map_of (files E) (fragment_target E dir m) = Some raw \<Longrightarrow> fragment_target E dir m \<notin> set stack \<Longrightarrow>
     includeOne E dir ctx stack m =
       interpolateMustache
         (expandIncludes E dir raw (nextContext ctx (includeData E m)) (stack @ [fragment_target E dir m]) False)
         (nextContext ctx (includeData E m))"
  by (simp add: fragment_target_def Let_def)

lemma expandIncludes_eq:
  "expandIncludes E dir html ctx stack skip =
     (if skip then rx_replace_all False re_include html (includeOne E dir ctx stack)
      else interpolateMustache (rx_replace_all False re_include html (includeOne E dir ctx stack)) ctx)"
  by (simp add: Let_def)

lemma chains_finite: "finite (chains E dir)"
proof -
  let ?A = "fst ` set (files E)"
  have "chains E dir \<subseteq> {xs. set xs \<subseteq> ?A \<and> length xs \<le> card ?A}"
  proof
    fix c assume "c \<in> chains E dir"
    then have d: "distinct c" and s: "set c \<subseteq> ?A" by (auto simp: chains_def)
    have "length c = card (set c)" using d by (simp add: distinct_card)
    also have "\<dots> \<le> card ?A" using s by (simp add: card_mono)
    finally show "c \<in> {xs. set xs \<subseteq> ?A \<and> length xs \<le> card ?A}" using s by simp
  qed
  moreover have "finite {xs. set xs \<subseteq> ?A \<and> length xs \<le> card ?A}"
    by (rule finite_lists_length_le) simp
  ultimately show ?thesis by (rule finite_subset)
qed

lemma chain_length: "c \<in> chains E dir \<Longrightarrow> length c \<le> longest_chain E dir"
  unfolding longest_chain_def using chains_finite by (intro Max_ge) auto

text \<open>The text a call works on: the page's when the stack is empty, else the text of the last fragment.\<close>

definition text_at :: "env \<Rightarrow> string \<Rightarrow> string list \<Rightarrow> string option" where
  "text_at E html stack = (if stack = [] then Some html else map_of (files E) (last stack))"

definition nested :: "env \<Rightarrow> string \<Rightarrow> string \<Rightarrow>
    (env \<times> string \<times> string \<times> jsval \<times> string list \<times> bool) + (env \<times> string \<times> jsval \<times> string list \<times> rmatch) \<Rightarrow> bool" where
  "nested E dir html x =
     (case x of
        Inl (E', dir', h', c', st', k') \<Rightarrow>
          E' = E \<and> dir' = dir \<and> st' \<in> chains E dir \<and> text_at E html st' = Some h'
      | Inr (E', dir', c', st', m) \<Rightarrow>
          E' = E \<and> dir' = dir \<and> st' \<in> chains E dir \<and>
          (\<exists>h. text_at E html st' = Some h \<and> m \<in> set (rx_match_all False re_include h)))"

lemma successively_snoc:
  "successively P xs \<Longrightarrow> (xs \<noteq> [] \<Longrightarrow> P (last xs) y) \<Longrightarrow> successively P (xs @ [y])"
  by (induction P xs rule: successively.induct) auto

lemma nested_step:
  assumes "expandIncludes_includeOne_rel y z" and "nested E dir html z"
  shows "nested E dir html y"
  using assms(1)
proof (cases rule: expandIncludes_includeOne_rel.cases)
  case (1 E' dir' h ctx stack skip m)
  with assms(2) show ?thesis by (auto simp: nested_def)
next
  case (2 E' dir' ctx stack m x xa xb x2 xc xd)
  with assms(2) obtain h where
    E: "E' = E" "dir' = dir" and ch: "stack \<in> chains E dir" and
    tx: "text_at E html stack = Some h" and m: "m \<in> set (rx_match_all False re_include h)"
    by (auto simp: nested_def)
  have xb: "xb = fragment_target E dir m" using 2 E by (simp add: fragment_target_def)
  have f: "map_of (files E) xb = Some x2" and ns: "xb \<notin> set stack" using 2 E by auto
  have mem: "xb \<in> fst ` set (files E)" using f by (auto dest: map_of_SomeD intro: rev_image_eqI)
  have dep: "depends E dir (last stack) xb" if "stack \<noteq> []"
    using that tx m xb by (auto simp: text_at_def depends_def includes_of_def)
  have "stack @ [xb] \<in> chains E dir"
    using ch ns mem dep by (auto simp: chains_def intro: successively_snoc)
  moreover have "text_at E html (stack @ [xb]) = Some x2" using f by (simp add: text_at_def)
  ultimately show ?thesis using 2 E by (simp add: nested_def)
qed

lemma nested_calls:
  assumes "expandIncludes_includeOne_rel\<^sup>*\<^sup>* y (Inl (E, dir, html, ctx, [], skip))"
  shows "nested E dir html y"
  using assms
proof (induction rule: converse_rtranclp_induct)
  case base
  show ?case by (simp add: nested_def chains_def text_at_def)
next
  case (step y z)
  then show ?case using nested_step by blast
qed



lemma rx_replace_all_scan:
  "rx_scan ic r [] [] s = (gms, t) \<Longrightarrow> rx_replace_all ic r s f = rx_splice f gms t"
  by (simp add: rx_replace_all_def)

lemma rx_replace_all_none: "rx_match_all ic r s = [] \<Longrightarrow> rx_replace_all ic r s f = s"
proof -
  assume a: "rx_match_all ic r s = []"
  obtain gms t where sc: "rx_scan ic r [] [] s = (gms, t)" by (cases "rx_scan ic r [] [] s")
  with a have "gms = []" by (simp add: rx_match_all_def)
  with rx_scan_parts[OF sc] rx_replace_all_scan[OF sc, of f] show ?thesis by simp
qed

definition cyclic_store :: env where
  \<comment> \<open>A fragment that includes itself, and two that include each other.\<close>
  "cyclic_store = posix_host ''/site''
     [(''/site/partials/_a.html'', ''A[<% a %>]''),
      (''/site/partials/_b.html'', ''B[<% c.html %>]''),
      (''/site/partials/_c.html'', ''C[<% b %>]'')]"

text \<open>
  C1. Every call of \<open>expandIncludes\<close> and of the callback of its \<open>replace\<close> ends: the
  call relation of the definition, \<open>expandIncludes_includeOne_rel callee caller\<close>, is
  well-founded on every input (each nested call has one more of the finitely many files
  on its stack). A tag that resolves to a fragment on the stack yields the marker
  \<open><!-- monad:cycle NAME -->\<close>, with no further call. And the stack of every call nested
  in a call that starts with the empty stack is a chain of the dependency graph of the
  fragments, so that the depth of the recursion is at most the length of the longest
  chain.
\<close>

theorem expandIncludes_terminates:
  "expandIncludes_includeOne_dom x \<and>
   (map_of (files E) (fragment_target E dir m) = Some raw \<and> fragment_target E dir m \<in> set stack \<longrightarrow>
      includeOne E dir ctx stack m = ''<!-- monad:cycle '' @ trim (grp_str m 1) @ '' -->'') \<and>
   (expandIncludes_includeOne_rel\<^sup>*\<^sup>* (Inl (E', dir', html', ctx', stack', skip'))
        (Inl (E, dir, html, ctx0, [], skip)) \<longrightarrow>
      stack' \<in> chains E dir \<and> length stack' \<le> longest_chain E dir)"
proof (intro conjI impI)
  show "expandIncludes_includeOne_dom x" using expandIncludes_calls_end by simp
  show "includeOne E dir ctx stack m = ''<!-- monad:cycle '' @ trim (grp_str m 1) @ '' -->''"
    if "map_of (files E) (fragment_target E dir m) = Some raw \<and> fragment_target E dir m \<in> set stack"
    using that includeOne_cycle by blast
  assume "expandIncludes_includeOne_rel\<^sup>*\<^sup>* (Inl (E', dir', html', ctx', stack', skip'))
        (Inl (E, dir, html, ctx0, [], skip))"
  from nested_calls[OF this] show c: "stack' \<in> chains E dir" by (simp add: nested_def)
  then show "length stack' \<le> longest_chain E dir" by (rule chain_length)
qed

theorem expandIncludes_terminates_witness:
  "expandIncludes_includeOne_dom (Inl (cyclic_store, ''/site/partials'', ''<% a %>'', JObj [], [], False)) \<and>
   includeOne cyclic_store ''/site/partials'' (JObj []) [''/site/partials/_a.html'']
       \<lparr>m_before = ''A['', m_text = ''<% a %>'', m_caps = [(1, ''a'')], m_after = '']''\<rparr>
     = ''<!-- monad:cycle a -->'' \<and>
   [''/site/partials/_a.html''] \<in> chains cyclic_store ''/site/partials'' \<and>
   length [''/site/partials/_a.html''] \<le> longest_chain cyclic_store ''/site/partials'' \<and>
   expandIncludes cyclic_store ''/site/partials'' ''<% a %>|<% b %>'' (JObj []) [] False
     = ''A[<!-- monad:cycle a -->]|B[C[<!-- monad:cycle b -->]]''"
proof -
  let ?E = cyclic_store and ?d = "''/site/partials''" and ?pa = "''/site/partials/_a.html''"
  let ?m0 = "\<lparr>m_before = [], m_text = ''<% a %>'', m_caps = [(1, ''a'')], m_after = []\<rparr>"
  let ?m1 = "\<lparr>m_before = ''A['', m_text = ''<% a %>'', m_caps = [(1, ''a'')], m_after = '']''\<rparr>"
  let ?top = "Inl (?E, ?d, ''<% a %>'', JObj [], [], False)"
  have f1: "rx_match_all False re_include ''<% a %>'' = [?m0]" by code_simp
  have f2: "fragment_target ?E ?d ?m0 = ?pa" by code_simp
  have f3: "map_of (files ?E) ?pa = Some ''A[<% a %>]''" by code_simp
  have f4: "fragment_target ?E ?d ?m1 = ?pa" by code_simp
  have f5: "trim (grp_str ?m1 1) = ''a''" by code_simp
  have r1: "expandIncludes_includeOne_rel (Inr (?E, ?d, JObj [], [], ?m0)) ?top"
    by (rule expandIncludes_includeOne_rel.intros(1)) (simp add: f1)
  have p3: "?pa = path_resolve ?E (resolvePartial ?E ?d (trim (grp_str ?m0 1)))"
    using f2 unfolding fragment_target_def by (rule sym)
  have r2: "expandIncludes_includeOne_rel
      (Inl (?E, ?d, ''A[<% a %>]'', nextContext (JObj []) (includeData ?E ?m0), [] @ [?pa], False))
      (Inr (?E, ?d, JObj [], [], ?m0))"
    by (rule expandIncludes_includeOne_rel.intros(2)[OF refl refl p3 f3 _ refl refl]) simp
  have rr: "expandIncludes_includeOne_rel\<^sup>*\<^sup>*
      (Inl (?E, ?d, ''A[<% a %>]'', nextContext (JObj []) (includeData ?E ?m0), [?pa], False)) ?top"
    using r1 r2 by (simp add: converse_rtranclp_into_rtranclp)
  note th = expandIncludes_terminates[of ?top ?E ?d ?m1 "''A[<% a %>]''" "[?pa]" "JObj []"
      ?E ?d "''A[<% a %>]''" "nextContext (JObj []) (includeData ?E ?m0)" "[?pa]" False
      "''<% a %>''" "JObj []" False]
  have 1: "expandIncludes_includeOne_dom ?top" using th by blast
  have 2: "includeOne ?E ?d (JObj []) [?pa] ?m1 = ''<!-- monad:cycle a -->''"
    using th f3 f4 f5 by simp
  have 3: "[?pa] \<in> chains ?E ?d" "length [?pa] \<le> longest_chain ?E ?d"
    using th rr by blast+
  have 4: "expandIncludes ?E ?d ''<% a %>|<% b %>'' (JObj []) [] False
     = ''A[<!-- monad:cycle a -->]|B[C[<!-- monad:cycle b -->]]''" by code_simp
  show ?thesis using 1 2 3 4 by blast
qed


lemma map_of_obj_put: "map_of (obj_put k v kvs) = (map_of kvs)(k \<mapsto> v)"
  by (induction kvs) (auto simp: fun_eq_iff)

lemma map_of_obj_fold:
  "map_of (foldl (\<lambda>acc (k, v). obj_put k v acc) acc kvs) = map_of acc ++ map_of (rev kvs)"
proof (induction kvs arbitrary: acc)
  case Nil
  show ?case by simp
next
  case (Cons kv kvs)
  obtain k v where kv: "kv = (k, v)" by (cases kv)
  have "map_of (foldl (\<lambda>acc (k, v). obj_put k v acc) acc (kv # kvs)) =
        map_of (obj_put k v acc) ++ map_of (rev kvs)"
    using Cons.IH[of "obj_put k v acc"] kv by simp
  also have "\<dots> = map_of acc ++ map_of (rev (kv # kvs))"
    by (simp add: map_of_obj_put kv map_add_def fun_eq_iff split: option.splits)
  finally show ?case .
qed

lemma map_of_obj_of: "map_of (obj_of kvs) = map_of (rev kvs)"
  by (simp add: obj_of_def map_of_obj_fold)

lemma map_of_rev_distinct: "distinct (map fst kvs) \<Longrightarrow> map_of (rev kvs) = map_of kvs"
proof (induction kvs)
  case Nil
  show ?case by simp
next
  case (Cons kv kvs)
  obtain k v where kv: "kv = (k, v)" by (cases kv)
  with Cons.prems have nk: "k \<notin> fst ` set kvs" and d: "distinct (map fst kvs)" by auto
  then have "map_of kvs k = None" by (simp add: map_of_eq_None_iff)
  with Cons.IH[OF d] show ?case
    by (simp add: kv fun_eq_iff map_add_def split: option.splits)
qed

lemma nextContext_other:
  assumes "distinct (map fst kvs)" and "k \<noteq> ''data''"
  shows "js_get (nextContext (JObj kvs) d) k = js_get (JObj kvs) k"
proof -
  have "map_of (obj_of (kvs @ [(''data'', x)])) k = map_of kvs k" for x
    using assms by (simp add: map_of_obj_of map_of_rev_distinct)
  then show ?thesis by (simp add: nextContext_def)
qed

definition card_store :: env where
  "card_store = posix_host ''/site'' [(''/site/partials/_card.html'', ''<h2>{{data.title}}{{p.title}}</h2>'')]"

definition a_template :: string where
  "a_template = ''a<% nope %>b<% card, {title: 1 %>c{{p.title}}''"

text \<open>
  C7. A tag whose fragment is not among the files is replaced by the marker
  \<open><!-- monad:missing-partial NAME -->\<close>. The text is its tags and the texts between
  them; expansion keeps the texts between and replaces every tag, so it goes on after a
  missing fragment. A data text that does not parse gives the empty data object, and the
  inclusion then runs as any other, its fragment expanded and interpolated in the
  context made from the caller's: every property of the caller's context but \<open>data\<close>
  reads the same there. The result is a text in every case: there is no error.
\<close>

theorem expandIncludes_degrades:
  "(map_of (files E) (fragment_target E dir m) = None \<longrightarrow>
      includeOne E dir ctx stack m = ''<!-- monad:missing-partial '' @ trim (grp_str m 1) @ '' -->'') \<and>
   (rx_scan False re_include [] [] html = (gms, t) \<longrightarrow>
      html = rx_splice m_text gms t \<and>
      expandIncludes E dir html ctx stack True = rx_splice (includeOne E dir ctx stack) gms t \<and>
      expandIncludes E dir html ctx stack False =
        interpolateMustache (rx_splice (includeOne E dir ctx stack) gms t) ctx) \<and>
   (grp m 2 = Some rawData \<and> json5_parse E (trim rawData) = None \<longrightarrow> includeData E m = JObj []) \<and>
   (map_of (files E) (fragment_target E dir m) = Some raw \<and> fragment_target E dir m \<notin> set stack \<longrightarrow>
      includeOne E dir ctx stack m =
        interpolateMustache
          (expandIncludes E dir raw (nextContext ctx (includeData E m)) (stack @ [fragment_target E dir m]) False)
          (nextContext ctx (includeData E m))) \<and>
   (distinct (map fst kvs) \<and> k \<noteq> ''data'' \<longrightarrow>
      js_get (nextContext (JObj kvs) dataObj) k = js_get (JObj kvs) k)"
proof (intro conjI impI)
  show "includeOne E dir ctx stack m = ''<!-- monad:missing-partial '' @ trim (grp_str m 1) @ '' -->''"
    if "map_of (files E) (fragment_target E dir m) = None"
    using that by (rule includeOne_missing)
  show "html = rx_splice m_text gms t" if "rx_scan False re_include [] [] html = (gms, t)"
    using rx_scan_parts[OF that] by simp
  show "expandIncludes E dir html ctx stack True = rx_splice (includeOne E dir ctx stack) gms t"
    if "rx_scan False re_include [] [] html = (gms, t)"
    using rx_replace_all_scan[OF that] by (simp add: expandIncludes_eq)
  show "expandIncludes E dir html ctx stack False =
        interpolateMustache (rx_splice (includeOne E dir ctx stack) gms t) ctx"
    if "rx_scan False re_include [] [] html = (gms, t)"
    using rx_replace_all_scan[OF that] by (simp add: expandIncludes_eq)
  show "includeData E m = JObj []" if "grp m 2 = Some rawData \<and> json5_parse E (trim rawData) = None"
    using that by (simp add: includeData_def)
  show "includeOne E dir ctx stack m =
        interpolateMustache
          (expandIncludes E dir raw (nextContext ctx (includeData E m)) (stack @ [fragment_target E dir m]) False)
          (nextContext ctx (includeData E m))"
    if "map_of (files E) (fragment_target E dir m) = Some raw \<and> fragment_target E dir m \<notin> set stack"
    using that includeOne_expand by blast
  show "js_get (nextContext (JObj kvs) dataObj) k = js_get (JObj kvs) k"
    if "distinct (map fst kvs) \<and> k \<noteq> ''data''"
    using that nextContext_other by blast
qed

theorem expandIncludes_degrades_witness:
  "map_of (files card_store) (fragment_target card_store ''/site/partials''
      \<lparr>m_before = ''a'', m_text = ''<% nope %>'', m_caps = [(1, ''nope'')],
        m_after = ''b<% card, {title: 1 %>c{{p.title}}''\<rparr>) = None \<and>
   includeOne card_store ''/site/partials'' a_context []
      \<lparr>m_before = ''a'', m_text = ''<% nope %>'', m_caps = [(1, ''nope'')],
        m_after = ''b<% card, {title: 1 %>c{{p.title}}''\<rparr> = ''<!-- monad:missing-partial nope -->'' \<and>
   includeData card_store
      \<lparr>m_before = ''a<% nope %>b'', m_text = ''<% card, {title: 1 %>'',
        m_caps = [(2, ''{title: 1''), (1, ''card'')], m_after = ''c{{p.title}}''\<rparr> = JObj [] \<and>
   expandIncludes card_store ''/site/partials'' a_template a_context [] True =
     ''a<!-- monad:missing-partial nope -->b<h2></h2>c{{p.title}}'' \<and>
   js_get (nextContext a_context (JObj [])) ''page'' = JObj [(''title'', JStr ''T'')]"
proof -
  let ?E = card_store and ?d = "''/site/partials''"
  let ?m1 = "\<lparr>m_before = ''a'', m_text = ''<% nope %>'', m_caps = [(1, ''nope'')],
        m_after = ''b<% card, {title: 1 %>c{{p.title}}''\<rparr>"
  let ?m2 = "\<lparr>m_before = ''a<% nope %>b'', m_text = ''<% card, {title: 1 %>'',
        m_caps = [(2, ''{title: 1''), (1, ''card'')], m_after = ''c{{p.title}}''\<rparr>"
  have sc: "rx_scan False re_include [] [] a_template = ([(''a'', ?m1), (''b'', ?m2)], ''c{{p.title}}'')"
    by code_simp
  have f1: "map_of (files ?E) (fragment_target ?E ?d ?m1) = None" by code_simp
  have f2: "trim (grp_str ?m1 1) = ''nope''" by code_simp
  have f3: "grp ?m2 2 = Some ''{title: 1''" by code_simp
  have f4: "json5_parse ?E (trim ''{title: 1'') = None" by (simp add: card_store_def posix_host_def no_json_def)
  have f5: "includeOne ?E ?d a_context [] ?m2 = ''<h2></h2>''" by code_simp
  have f6: "distinct (map fst [(''page'', JObj [(''title'', JStr ''T'')]), (''data'', JObj [])])" by simp
  note th = expandIncludes_degrades[of ?E ?d ?m1 a_context "[]" a_template
      "[(''a'', ?m1), (''b'', ?m2)]" "''c{{p.title}}''"]
  have 1: "includeOne ?E ?d a_context [] ?m1 = ''<!-- monad:missing-partial nope -->''"
    using th f1 f2 by simp
  have 2: "expandIncludes ?E ?d a_template a_context [] True =
      rx_splice (includeOne ?E ?d a_context []) [(''a'', ?m1), (''b'', ?m2)] ''c{{p.title}}''"
    using th sc by blast
  have 3: "includeData ?E ?m2 = JObj []"
    using expandIncludes_degrades[of ?E ?d ?m2 a_context "[]" a_template
      "[(''a'', ?m1), (''b'', ?m2)]" "''c{{p.title}}''" "''{title: 1''"] f3 f4 by blast
  have 4: "js_get (nextContext a_context (JObj [])) ''page'' = JObj [(''title'', JStr ''T'')]"
    using expandIncludes_degrades[of ?E ?d ?m1 a_context "[]" a_template
      "[(''a'', ?m1), (''b'', ?m2)]" "''c{{p.title}}''" "''x''" "''x''"
      "[(''page'', JObj [(''title'', JStr ''T'')]), (''data'', JObj [])]" "''page''" "JObj []"] f6
    by (simp add: a_context_def)
  have 5: "expandIncludes ?E ?d a_template a_context [] True =
     ''a<!-- monad:missing-partial nope -->b<h2></h2>c{{p.title}}''"
    using 2 1 f5 by simp
  show ?thesis using f1 1 3 4 5 by blast
qed

text \<open>
  C10. With the last interpolation put off, \<open>expandIncludes\<close> is the replacement of the
  tags alone: the texts between the tags are kept as they are, tokens and all, and a text
  with no tag comes back unchanged. The callback does not hand the flag down: the text
  of a fragment is expanded with the flag off and interpolated in the context of the
  inclusion, so a token of a fragment whose path misses there is replaced by the empty
  string.
\<close>

theorem expandIncludes_deferral:
  "expandIncludes E dir html ctx stack False = interpolateMustache (expandIncludes E dir html ctx stack True) ctx \<and>
   (rx_scan False re_include [] [] html = (gms, t) \<longrightarrow>
      html = rx_splice m_text gms t \<and>
      expandIncludes E dir html ctx stack True = rx_splice (includeOne E dir ctx stack) gms t) \<and>
   (rx_match_all False re_include html = [] \<longrightarrow> expandIncludes E dir html ctx stack True = html) \<and>
   (map_of (files E) (fragment_target E dir m) = Some raw \<and> fragment_target E dir m \<notin> set stack \<longrightarrow>
      includeOne E dir ctx stack m =
        interpolateMustache
          (interpolateMustache
             (expandIncludes E dir raw (nextContext ctx (includeData E m)) (stack @ [fragment_target E dir m]) True)
             (nextContext ctx (includeData E m)))
          (nextContext ctx (includeData E m))) \<and>
   (lookup ctx' (path_parts (trim (grp_str tok 1))) = None \<longrightarrow> mustacheValue ctx' tok = [])"
proof (intro conjI impI)
  show "expandIncludes E dir html ctx stack False = interpolateMustache (expandIncludes E dir html ctx stack True) ctx"
    by (simp add: expandIncludes_eq)
  show "html = rx_splice m_text gms t" if "rx_scan False re_include [] [] html = (gms, t)"
    using rx_scan_parts[OF that] by simp
  show "expandIncludes E dir html ctx stack True = rx_splice (includeOne E dir ctx stack) gms t"
    if "rx_scan False re_include [] [] html = (gms, t)"
    using rx_replace_all_scan[OF that] by (simp add: expandIncludes_eq)
  show "expandIncludes E dir html ctx stack True = html" if "rx_match_all False re_include html = []"
    using rx_replace_all_none[OF that] by (simp add: expandIncludes_eq)
  show "includeOne E dir ctx stack m =
        interpolateMustache
          (interpolateMustache
             (expandIncludes E dir raw (nextContext ctx (includeData E m)) (stack @ [fragment_target E dir m]) True)
             (nextContext ctx (includeData E m)))
          (nextContext ctx (includeData E m))"
    if "map_of (files E) (fragment_target E dir m) = Some raw \<and> fragment_target E dir m \<notin> set stack"
    using that includeOne_expand[of E dir m raw stack ctx] by (simp add: expandIncludes_eq)
  show "mustacheValue ctx' tok = []" if "lookup ctx' (path_parts (trim (grp_str tok 1))) = None"
    using that by (simp add: mustacheValue_def getByPath_def path_parts_def walk_lookup)
qed

definition some_posts :: jsval where
  "some_posts = JObj [(''posts'', JArr [JObj [(''title'', JStr ''A'')], JObj [(''title'', JStr ''B'')]])]"

theorem expandIncludes_deferral_witness:
  "rx_match_all False re_include ''<b>{{p.title}}</b>'' = [] \<and>
   expandIncludes card_store ''/site/partials'' ''<b>{{p.title}}</b>'' a_context [] True = ''<b>{{p.title}}</b>'' \<and>
   expandIncludes card_store ''/site/partials'' ''<b>{{p.title}}</b>'' a_context [] False = ''<b></b>'' \<and>
   expandIncludes card_store ''/site/partials'' ''<% card %>{{p.title}}'' a_context [] True
     = ''<h2></h2>{{p.title}}'' \<and>
   renderBody card_store ''/site/partials''
       ''<!-- monad:loop p in posts --><% card %>{{p.title}}<!-- monad:endloop -->'' a_context True some_posts
     = Inr ''<h2></h2>A<h2></h2>B''"
proof -
  let ?E = card_store and ?d = "''/site/partials''"
  have n: "rx_match_all False re_include ''<b>{{p.title}}</b>'' = []" by code_simp
  note th = expandIncludes_deferral[of ?E ?d "''<b>{{p.title}}</b>''" a_context "[]"]
  have 1: "expandIncludes ?E ?d ''<b>{{p.title}}</b>'' a_context [] True = ''<b>{{p.title}}</b>''"
    using th n by blast
  have i: "interpolateMustache ''<b>{{p.title}}</b>'' a_context = ''<b></b>''" by code_simp
  have 2: "expandIncludes ?E ?d ''<b>{{p.title}}</b>'' a_context [] False = ''<b></b>''"
    using th 1 i by simp
  have 3: "expandIncludes ?E ?d ''<% card %>{{p.title}}'' a_context [] True = ''<h2></h2>{{p.title}}''"
    by code_simp
  have 4: "renderBody ?E ?d ''<!-- monad:loop p in posts --><% card %>{{p.title}}<!-- monad:endloop -->''
      a_context True some_posts = Inr ''<h2></h2>A<h2></h2>B''"
    by code_simp
  show ?thesis using n 1 2 3 4 by blast
qed


subsection \<open>The audit\<close>

lemma split_acc_hd: "hd (split_acc d acc s) = rev acc @ takeWhile (\<lambda>c. c \<noteq> d) s"
  by (induction s arbitrary: acc) auto

lemma split_hd: "hd (split s d) = takeWhile (\<lambda>c. c \<noteq> d) s"
  by (simp add: split_def split_acc_hd)

lemma strip_query_fragment:
  "hd (split (hd (split href CHR ''?'')) CHR ''#'') = takeWhile (\<lambda>c. c \<noteq> CHR ''?'' \<and> c \<noteq> CHR ''#'') href"
  by (simp add: split_hd takeWhile_takeWhile conj_commute)

lemma routeMatches_slashed: "routeMatches c r = (slashed r = slashed c)"
  by (auto simp: routeMatches_def)

lemma linkWarnings_eq:
  "linkWarnings routes link =
     (let href = or_empty (getAttribute link ''href'')
      in if startsWith href ''/'' \<and> \<not> startsWith href ''//'' \<and>
            \<not> (\<exists>r\<in>set routes. slashed r = slashed (takeWhile (\<lambda>c. c \<noteq> CHR ''?'' \<and> c \<noteq> CHR ''#'') href))
         then [''Broken internal link: '' @ href] else [])"
  by (simp add: linkWarnings_def Let_def strip_query_fragment list_ex_iff routeMatches_slashed)

lemma linkWarnings_are: "w \<in> set (linkWarnings routes link) \<Longrightarrow> is_link_warning w"
  by (auto simp: linkWarnings_def Let_def is_link_warning_def startsWith_def split: if_splits)

lemma altWarning_not_link: "w \<in> set (altWarning img) \<Longrightarrow> \<not> is_link_warning w"
  by (auto simp: altWarning_def Let_def is_link_warning_def startsWith_def split: if_splits)

lemma sizeWarning_cases:
  "sizeWarning E opts img = [] \<or> (\<exists>rest. sizeWarning E opts img = [''Large image ('' @ rest])"
  unfolding sizeWarning_def Let_def
  by (cases opts; cases "case opts of None \<Rightarrow> None | Some ob \<Rightarrow> distDirAbs ob";
      simp split: option.split)

lemma sizeWarning_not_link: "w \<in> set (sizeWarning E opts img) \<Longrightarrow> \<not> is_link_warning w"
proof -
  assume a: "w \<in> set (sizeWarning E opts img)"
  from sizeWarning_cases[of E opts img] a obtain rest where "w = ''Large image ('' @ rest"
    by auto
  then show ?thesis by (simp add: is_link_warning_def startsWith_def)
qed

lemma imgWarnings_are_not: "w \<in> set (imgWarnings E opts img) \<Longrightarrow> \<not> is_link_warning w"
  using altWarning_not_link sizeWarning_not_link by (auto simp: imgWarnings_def)

lemma filter_concat_all: "\<forall>x\<in>set xs. \<forall>w\<in>set (f x). P w \<Longrightarrow> filter P (concat (map f xs)) = concat (map f xs)"
  by (induction xs) (auto simp: filter_id_conv)

lemma filter_concat_none: "\<forall>x\<in>set xs. \<forall>w\<in>set (f x). \<not> P w \<Longrightarrow> filter P (concat (map f xs)) = []"
  by (induction xs) (auto simp: filter_empty_conv)

lemma checkLinks_are: "filter is_link_warning (checkLinks opts root) = checkLinks opts root"
  by (auto simp: checkLinks_def linkWarnings_are intro!: filter_concat_all split: option.splits)

lemma audit_link_filter:
  "filter is_link_warning (auditHtml E html route opts) = checkLinks opts (parseHtml E html)"
proof -
  have i: "filter is_link_warning (concat (map (imgWarnings E opts) (filter is_img (parseHtml E html)))) = []"
    by (rule filter_concat_none) (auto dest: imgWarnings_are_not)
  have f: "\<not> is_link_warning ''Missing <title>''" "\<not> is_link_warning ''Missing meta description''"
    "\<not> is_link_warning ''Missing <h1>''" "\<not> is_link_warning (''Multiple <h1> ('' @ n @ '')'')"
    "\<not> is_link_warning ''No favicon <link rel=\"icon\"> found (consider adding)''"
    "\<not> is_link_warning ''Missing canonical link tag''" for n
    by (simp_all add: is_link_warning_def startsWith_def)
  show ?thesis
    unfolding auditHtml_def Let_def filter_append i checkLinks_are
    using f by simp
qed


lemma linkWarnings_href:
  "getAttribute link ''href'' = Some h \<Longrightarrow>
     linkWarnings routes link = linkWarnings routes \<lparr>tagName = ''a'', attrs = [(''href'', h)]\<rparr>"
  by (simp add: linkWarnings_def getAttribute_def)

definition two_routes :: audit_opts where
  "two_routes = \<lparr>distDirAbs = None, maxImageBytes = None, allRoutes = Some [''/'', ''/about/'']\<rparr>"

definition linked_page :: string where
  "linked_page = ''<h1>a</h1><a href=\"/about\">x</a><a href=\"/missing/\">y</a><a href=\"//cdn/x\">z</a>''"

definition linked_page_elements :: "string \<Rightarrow> element list" where
  \<comment> \<open>What the parser gives for \<open>linked_page\<close>.\<close>
  "linked_page_elements t =
     [\<lparr>tagName = ''h1'', attrs = []\<rparr>,
      \<lparr>tagName = ''a'', attrs = [(''href'', ''/about'')]\<rparr>,
      \<lparr>tagName = ''a'', attrs = [(''href'', ''/missing/'')]\<rparr>,
      \<lparr>tagName = ''a'', attrs = [(''href'', ''//cdn/x'')]\<rparr>]"

text \<open>
  C3. The warnings of the link check in the result of the audit are those of the anchors
  with an \<open>href\<close>, in document order, against the route table given. An anchor gives one
  warning when its \<open>href\<close> starts with one slash and not two and no route equals it, up
  to a trailing slash, once what follows the first \<open>?\<close> or \<open>#\<close> is cut off; it gives none
  otherwise. Against the routes \<open>/\<close> and \<open>/about/\<close>, an anchor to \<open>/missing/\<close> gives one
  warning and an anchor to \<open>/about\<close> gives none.
\<close>

theorem auditHtml_broken_links:
  "filter is_link_warning (auditHtml E html route opts) = checkLinks opts (parseHtml E html) \<and>
   (allRoutes ob = Some routes \<longrightarrow>
      checkLinks (Some ob) root = concat (map (linkWarnings routes) (filter is_link root))) \<and>
   linkWarnings routes link =
     (let href = or_empty (getAttribute link ''href'')
      in if startsWith href ''/'' \<and> \<not> startsWith href ''//'' \<and>
            \<not> (\<exists>r\<in>set routes. slashed r = slashed (takeWhile (\<lambda>c. c \<noteq> CHR ''?'' \<and> c \<noteq> CHR ''#'') href))
         then [''Broken internal link: '' @ href] else []) \<and>
   (getAttribute link ''href'' = Some ''/missing/'' \<longrightarrow>
      linkWarnings [''/'', ''/about/''] link = [''Broken internal link: /missing/'']) \<and>
   (getAttribute link ''href'' = Some ''/about'' \<longrightarrow> linkWarnings [''/'', ''/about/''] link = [])"
proof (intro conjI impI)
  show "filter is_link_warning (auditHtml E html route opts) = checkLinks opts (parseHtml E html)"
    by (rule audit_link_filter)
  show "checkLinks (Some ob) root = concat (map (linkWarnings routes) (filter is_link root))"
    if "allRoutes ob = Some routes"
    using that by (simp add: checkLinks_def)
  show "linkWarnings routes link =
     (let href = or_empty (getAttribute link ''href'')
      in if startsWith href ''/'' \<and> \<not> startsWith href ''//'' \<and>
            \<not> (\<exists>r\<in>set routes. slashed r = slashed (takeWhile (\<lambda>c. c \<noteq> CHR ''?'' \<and> c \<noteq> CHR ''#'') href))
         then [''Broken internal link: '' @ href] else [])"
    by (rule linkWarnings_eq)
  have m: "linkWarnings [''/'', ''/about/''] \<lparr>tagName = ''a'', attrs = [(''href'', ''/missing/'')]\<rparr>
      = [''Broken internal link: /missing/'']" by code_simp
  have a: "linkWarnings [''/'', ''/about/''] \<lparr>tagName = ''a'', attrs = [(''href'', ''/about'')]\<rparr> = []"
    by code_simp
  show "linkWarnings [''/'', ''/about/''] link = [''Broken internal link: /missing/'']"
    if "getAttribute link ''href'' = Some ''/missing/''"
    using linkWarnings_href[OF that] m by simp
  show "linkWarnings [''/'', ''/about/''] link = []" if "getAttribute link ''href'' = Some ''/about''"
    using linkWarnings_href[OF that] a by simp
qed

theorem auditHtml_broken_links_witness:
  "allRoutes two_routes = Some [''/'', ''/about/''] \<and>
   filter is_link (linked_page_elements linked_page) =
     [\<lparr>tagName = ''a'', attrs = [(''href'', ''/about'')]\<rparr>,
      \<lparr>tagName = ''a'', attrs = [(''href'', ''/missing/'')]\<rparr>,
      \<lparr>tagName = ''a'', attrs = [(''href'', ''//cdn/x'')]\<rparr>] \<and>
   filter is_link_warning
     (auditHtml ((posix_host ''/'' [])\<lparr>parseHtml := linked_page_elements\<rparr>) linked_page ''/'' (Some two_routes))
     = [''Broken internal link: /missing/'']"
proof -
  let ?E = "(posix_host ''/'' [])\<lparr>parseHtml := linked_page_elements\<rparr>"
  let ?a = "\<lparr>tagName = ''a'', attrs = [(''href'', ''/about'')]\<rparr>"
  let ?m = "\<lparr>tagName = ''a'', attrs = [(''href'', ''/missing/'')]\<rparr>"
  let ?c = "\<lparr>tagName = ''a'', attrs = [(''href'', ''//cdn/x'')]\<rparr>"
  have r: "allRoutes two_routes = Some [''/'', ''/about/'']" by (simp add: two_routes_def)
  have p: "parseHtml ?E linked_page = linked_page_elements linked_page" by simp
  have l: "filter is_link (linked_page_elements linked_page) = [?a, ?m, ?c]" by code_simp
  have ha: "getAttribute ?a ''href'' = Some ''/about''" and hm: "getAttribute ?m ''href'' = Some ''/missing/''"
    by (simp_all add: getAttribute_def)
  have c: "linkWarnings [''/'', ''/about/''] ?c = []" by code_simp
  have 1: "filter is_link_warning (auditHtml ?E linked_page ''/'' (Some two_routes)) =
      concat (map (linkWarnings [''/'', ''/about/'']) [?a, ?m, ?c])"
    using auditHtml_broken_links[of ?E linked_page "''/''" "Some two_routes" two_routes
        "[''/'', ''/about/'']" "linked_page_elements linked_page"] r p l
    by simp
  have 2: "linkWarnings [''/'', ''/about/''] ?a = []"
    using auditHtml_broken_links[of ?E linked_page "''/''" "Some two_routes" two_routes
        "[''/'', ''/about/'']" "linked_page_elements linked_page" ?a] ha by blast
  have 3: "linkWarnings [''/'', ''/about/''] ?m = [''Broken internal link: /missing/'']"
    using auditHtml_broken_links[of ?E linked_page "''/''" "Some two_routes" two_routes
        "[''/'', ''/about/'']" "linked_page_elements linked_page" ?m] hm by blast
  show ?thesis using r l 1 2 3 c by simp
qed

subsection \<open>The audit of the document\<close>

lemma two_members: "x \<in> set ws \<Longrightarrow> y \<in> set ws \<Longrightarrow> x \<noteq> y \<Longrightarrow> 2 \<le> length ws"
proof -
  assume a: "x \<in> set ws" "y \<in> set ws" "x \<noteq> y"
  then have "{x, y} \<subseteq> set ws" by simp
  then have "card {x, y} \<le> card (set ws)" by (simp add: card_mono)
  moreover have "card {x, y} = 2" using a(3) by simp
  moreover have "card (set ws) \<le> length ws" by (rule card_length)
  ultimately show ?thesis by simp
qed

lemma altWarning_ok: "getAttribute img ''alt'' = Some a \<Longrightarrow> trim a \<noteq> [] \<Longrightarrow> altWarning img = []"
  by (simp add: altWarning_def or_empty_def)

lemma altWarning_none: "getAttribute img ''alt'' = None \<Longrightarrow> altWarning img = [''Image missing alt attribute'']"
  by (simp add: altWarning_def)

lemma sizeWarning_no_opts: "sizeWarning E None img = []"
  by (simp add: sizeWarning_def)

definition good_page :: string where
  "good_page = ''<title>T</title><meta name=\"description\" content=\"D\"><link rel=\"canonical\" href=\"/\"><link rel=\"icon\" href=\"/f.ico\"><h1>a</h1><img src=\"a.png\" alt=\"A\">''"

definition no_icon_page :: string where
  "no_icon_page = ''<title>T</title><meta name=\"description\" content=\"D\"><link rel=\"canonical\" href=\"/\"><h1>a</h1><img src=\"a.png\" alt=\"A\">''"

definition one_image :: "string \<Rightarrow> element list" where
  \<comment> \<open>The image of \<open>good_page\<close> and of \<open>no_icon_page\<close>, as the parser gives it.\<close>
  "one_image t = [\<lparr>tagName = ''img'', attrs = [(''src'', ''a.png''), (''alt'', ''A'')]\<rparr>]"

definition bad_page :: string where
  "bad_page = ''<title>T</title><h1>a</h1><h1 class=\"x\">b</h1><img src=\"a.png\">''"

definition bare_image :: "string \<Rightarrow> element list" where
  \<comment> \<open>The image of \<open>bad_page\<close>.\<close>
  "bare_image t = [\<lparr>tagName = ''img'', attrs = [(''src'', ''a.png'')]\<rparr>]"

text \<open>
  C5, as the code has it. A document with more than one \<open><h1\<close> tag and an image with no
  \<open>alt\<close> attribute has a warning for each, so at least two. A document with one \<open><h1\<close>
  tag, a title that is not empty, a meta description, a canonical link, a favicon link
  (\<open>rel="icon"\<close> or \<open>rel="shortcut icon"\<close>), and images that all have an \<open>alt\<close> that is not
  blank and none over the size budget, has no warning but those of the link check, and
  none at all when no route table is given. The title, the description and the links are
  found by the patterns of the audit in the text of the document.
\<close>

theorem auditHtml_seo:
  "(length (rx_match_all True re_h1 html) = n \<and> 1 < n \<and> img \<in> set (parseHtml E html) \<and> is_img img \<and>
    getAttribute img ''alt'' = None \<longrightarrow>
      ''Multiple <h1> ('' @ show_nat n @ '')'' \<in> set (auditHtml E html route opts) \<and>
      ''Image missing alt attribute'' \<in> set (auditHtml E html route opts) \<and>
      2 \<le> length (auditHtml E html route opts)) \<and>
   (rx_test True re_title html \<and> rx_test True re_metadesc html \<and>
    length (rx_match_all True re_h1 html) = 1 \<and>
    (rx_test True (re_rel ''icon'') html \<or> rx_test True (re_rel ''shortcut icon'') html) \<and>
    rx_test True (re_rel ''canonical'') html \<and>
    (\<forall>i\<in>set (parseHtml E html). is_img i \<longrightarrow>
        (\<exists>a. getAttribute i ''alt'' = Some a \<and> trim a \<noteq> []) \<and> sizeWarning E opts i = []) \<longrightarrow>
      auditHtml E html route opts = checkLinks opts (parseHtml E html) \<and>
      auditHtml E html route None = [])"
proof (intro conjI impI)
  assume a: "length (rx_match_all True re_h1 html) = n \<and> 1 < n \<and> img \<in> set (parseHtml E html) \<and>
    is_img img \<and> getAttribute img ''alt'' = None"
  then have "''Image missing alt attribute'' \<in> set (imgWarnings E opts img)"
    by (simp add: imgWarnings_def altWarning_none)
  moreover have "img \<in> set (filter is_img (parseHtml E html))" using a by simp
  ultimately have "''Image missing alt attribute'' \<in>
      set (concat (map (imgWarnings E opts) (filter is_img (parseHtml E html))))"
    by (auto simp del: set_filter)
  then show i: "''Image missing alt attribute'' \<in> set (auditHtml E html route opts)"
    by (simp add: auditHtml_def Let_def)
  show m: "''Multiple <h1> ('' @ show_nat n @ '')'' \<in> set (auditHtml E html route opts)"
    using a by (simp add: auditHtml_def Let_def)
  show "2 \<le> length (auditHtml E html route opts)"
    using m i by (rule two_members) simp
next
  assume a: "rx_test True re_title html \<and> rx_test True re_metadesc html \<and>
    length (rx_match_all True re_h1 html) = 1 \<and>
    (rx_test True (re_rel ''icon'') html \<or> rx_test True (re_rel ''shortcut icon'') html) \<and>
    rx_test True (re_rel ''canonical'') html \<and>
    (\<forall>i\<in>set (parseHtml E html). is_img i \<longrightarrow>
        (\<exists>a. getAttribute i ''alt'' = Some a \<and> trim a \<noteq> []) \<and> sizeWarning E opts i = [])"
  have "\<forall>i\<in>set (filter is_img (parseHtml E html)). imgWarnings E opts i = []"
    using a by (auto simp: imgWarnings_def altWarning_ok)
  then have 1: "concat (map (imgWarnings E opts) (filter is_img (parseHtml E html))) = []"
    by (simp del: set_filter)
  have "\<forall>i\<in>set (filter is_img (parseHtml E html)). imgWarnings E None i = []"
    using a by (auto simp: imgWarnings_def altWarning_ok sizeWarning_no_opts)
  then have 2: "concat (map (imgWarnings E None) (filter is_img (parseHtml E html))) = []"
    by (simp del: set_filter)
  show "auditHtml E html route opts = checkLinks opts (parseHtml E html)"
    using a 1 by (auto simp: auditHtml_def Let_def)
  show "auditHtml E html route None = []"
    using a 2 by (auto simp: auditHtml_def Let_def checkLinks_def)
qed

theorem auditHtml_seo_witness:
  "length (rx_match_all True re_h1 bad_page) = 2 \<and>
   ''Multiple <h1> (2)'' \<in> set (auditHtml ((posix_host ''/'' [])\<lparr>parseHtml := bare_image\<rparr>) bad_page ''/'' None) \<and>
   2 \<le> length (auditHtml ((posix_host ''/'' [])\<lparr>parseHtml := bare_image\<rparr>) bad_page ''/'' None) \<and>
   rx_test True re_title good_page \<and> rx_test True re_metadesc good_page \<and>
   length (rx_match_all True re_h1 good_page) = 1 \<and> rx_test True (re_rel ''icon'') good_page \<and>
   rx_test True (re_rel ''canonical'') good_page \<and>
   auditHtml ((posix_host ''/'' [])\<lparr>parseHtml := one_image\<rparr>) good_page ''/'' None = []"
proof -
  let ?B = "(posix_host ''/'' [])\<lparr>parseHtml := bare_image\<rparr>"
  let ?G = "(posix_host ''/'' [])\<lparr>parseHtml := one_image\<rparr>"
  let ?bi = "\<lparr>tagName = ''img'', attrs = [(''src'', ''a.png'')]\<rparr>"
  let ?gi = "\<lparr>tagName = ''img'', attrs = [(''src'', ''a.png''), (''alt'', ''A'')]\<rparr>"
  have b1: "length (rx_match_all True re_h1 bad_page) = 2" by code_simp
  have b2: "?bi \<in> set (parseHtml ?B bad_page)" by (simp add: bare_image_def)
  have b3: "is_img ?bi" "getAttribute ?bi ''alt'' = None" by (simp_all add: is_img_def getAttribute_def)
  have s2: "show_nat 2 = ''2''" by code_simp
  have g1: "rx_test True re_title good_page" by code_simp
  have g2: "rx_test True re_metadesc good_page" by code_simp
  have g3: "length (rx_match_all True re_h1 good_page) = 1" by code_simp
  have g4: "rx_test True (re_rel ''icon'') good_page" by code_simp
  have g5: "rx_test True (re_rel ''canonical'') good_page" by code_simp
  have g6: "trim ''A'' \<noteq> []" by code_simp
  have g7: "\<forall>i\<in>set (parseHtml ?G good_page). is_img i \<longrightarrow>
        (\<exists>a. getAttribute i ''alt'' = Some a \<and> trim a \<noteq> []) \<and> sizeWarning ?G None i = []"
    using g6 by (simp add: one_image_def getAttribute_def sizeWarning_no_opts)
  from auditHtml_seo[of bad_page 2 ?bi ?B "''/''" None] b1 b2 b3 s2
  have 1: "''Multiple <h1> (2)'' \<in> set (auditHtml ?B bad_page ''/'' None)"
    and 2: "2 \<le> length (auditHtml ?B bad_page ''/'' None)"
    by simp_all
  from auditHtml_seo[of good_page 1 ?gi ?G "''/''" None] g1 g2 g3 g4 g5 g7
  have 3: "auditHtml ?G good_page ''/'' None = []"
    by blast
  show ?thesis using b1 1 2 g1 g2 g3 g4 g5 3 by blast
qed

text \<open>
  C5 as stated fails for a document that has all it lists and no favicon link: the audit
  warns about the favicon.
\<close>

theorem auditHtml_favicon_counterexample:
  "rx_test True re_title no_icon_page \<and> rx_test True re_metadesc no_icon_page \<and>
   length (rx_match_all True re_h1 no_icon_page) = 1 \<and> rx_test True (re_rel ''canonical'') no_icon_page \<and>
   auditHtml ((posix_host ''/'' [])\<lparr>parseHtml := one_image\<rparr>) no_icon_page ''/'' None
     = [''No favicon <link rel=\"icon\"> found (consider adding)'']"
proof -
  have t: "rx_test True re_title no_icon_page" by code_simp
  have d: "rx_test True re_metadesc no_icon_page" by code_simp
  have h: "length (rx_match_all True re_h1 no_icon_page) = 1" by code_simp
  have c: "rx_test True (re_rel ''canonical'') no_icon_page" by code_simp
  have i: "\<not> rx_test True (re_rel ''icon'') no_icon_page"
    "\<not> rx_test True (re_rel ''shortcut icon'') no_icon_page" by code_simp+
  have a: "trim ''A'' \<noteq> []" by code_simp
  have "auditHtml ((posix_host ''/'' [])\<lparr>parseHtml := one_image\<rparr>) no_icon_page ''/'' None
     = [''No favicon <link rel=\"icon\"> found (consider adding)'']"
    using a
    by (simp add: auditHtml_def Let_def t d h c i one_image_def is_img_def imgWarnings_def
        altWarning_def getAttribute_def or_empty_def sizeWarning_no_opts checkLinks_def)
  then show ?thesis using t d h c by simp
qed

subsection \<open>Collection loops\<close>

definition loop_block :: string where
  "loop_block = ''<!-- monad:loop p in posts.items --><h2>{{@index}} {{p.title}}</h2><!-- monad:endloop -->''"

definition posts_store :: "string list \<Rightarrow> jsval" where
  \<comment> \<open>\<open>{posts: {items: [{title: t1}, {title: t2}, ...]}}\<close>\<close>
  "posts_store titles =
     JObj [(''posts'', JObj [(''items'', JArr (map (\<lambda>t. JObj [(''title'', JStr t)]) titles))])]"

text \<open>
  C4 at three inputs. The loop of the specification's example, over the posts titled
  \<open>A\<close> and \<open>B\<close>, gives the two headings in the order of the collection, with the indices
  0 and 1. A path that is not an array gives the comment in place of the block. For a
  post titled \<open>Save $$ now\<close> the heading reads \<open>Save $ now\<close>: the text made for the block
  is put in by \<open>result.replace(fullMatch, rendered)\<close>, which reads \<open>$$\<close> in its second
  argument as one dollar sign, so the block is not replaced by the instantiation of its
  body with the field of the item.
\<close>

theorem expandCollectionLoops_dollar:
  "expandCollectionLoops loop_block (posts_store [''A'', ''B'']) = Inr ''<h2>0 A</h2><h2>1 B</h2>'' \<and>
   expandCollectionLoops loop_block (JObj [(''posts'', JArr [])])
     = Inr ''<!-- Collection posts.items not found -->'' \<and>
   expandCollectionLoops loop_block (posts_store [''Save $$ now'']) = Inr ''<h2>0 Save $ now</h2>''"
  by code_simp

end
